theory Spec2Isabelle
  imports Main "HOL-Library.Char_ord" "HOL-Library.List_Lexorder"
begin

section \<open>Python string and list primitives used by the sources\<close>

text \<open>
  Strings are lists of 8-bit characters, which covers the Latin-1 part of Python's
  \<^verbatim>\<open>str\<close>. The order on strings is the lexicographic order of the character codes,
  which is how Python compares two \<^verbatim>\<open>str\<close> values and how \<^verbatim>\<open>list.sort()\<close> orders
  a list of them.
\<close>

text \<open>\<^verbatim>\<open>s.replace(old, new)\<close>: every non-overlapping occurrence, from the left.\<close>

fun py_replace :: "string \<Rightarrow> string \<Rightarrow> string \<Rightarrow> string" where
  "py_replace old new [] = (if old = [] then new else [])"
| "py_replace old new (c # cs) =
     (if old = [] then new @ c # py_replace old new cs
      else if take (length old) (c # cs) = old
           then new @ py_replace old new (drop (length old - 1) cs)
           else c # py_replace old new cs)"

text \<open>\<^verbatim>\<open>s.split(d)\<close> for a one-character separator \<open>d\<close>.\<close>

fun py_split :: "char \<Rightarrow> string \<Rightarrow> string list" where
  "py_split d [] = [[]]"
| "py_split d (c # cs) =
     (if c = d then [] # py_split d cs
      else (case py_split d cs of
              [] \<Rightarrow> [[c]]
            | w # ws \<Rightarrow> (c # w) # ws))"

text \<open>\<^verbatim>\<open>s.lower()\<close> on Latin-1 text: A-Z and the accented capitals 0xC0-0xDE (not 0xD7).\<close>

definition lower_char :: "char \<Rightarrow> char" where
  "lower_char c =
     (let n = (of_char c :: nat)
      in if (65 \<le> n \<and> n \<le> 90) \<or> (192 \<le> n \<and> n \<le> 222 \<and> n \<noteq> 215)
         then char_of (n + 32) else c)"

definition py_lower :: "string \<Rightarrow> string" where
  "py_lower s = map lower_char s"

text \<open>\<^verbatim>\<open>html.escape(s, True)\<close>.\<close>

definition html_escape :: "string \<Rightarrow> string" where
  "html_escape s =
     py_replace [CHR 0x27] ''&#x27;''
       (py_replace [CHR 0x22] ''&quot;''
         (py_replace ''>'' ''&gt;''
           (py_replace ''<'' ''&lt;''
             (py_replace ''&'' ''&amp;'' s))))"

section \<open>The control panel: \<^verbatim>\<open>sfwebui.py\<close>\<close>

subsection \<open>Configuration and persisted scans\<close>

text \<open>
  One entry of \<^verbatim>\<open>config['__modules__']\<close>: the event types a module produces and
  consumes and the use-case groups it is tagged with. The dictionary is kept as an
  association list in its iteration order.
\<close>

record modinfo =
  provides :: "string list"
  consumes :: "string list"
  group :: "string list"

type_synonym registry = "(string \<times> modinfo) list"

text \<open>A row of \<^verbatim>\<open>scanInstanceGet\<close>; the status is column 5.\<close>

record scan_instance =
  si_name :: string
  si_target :: string
  si_created :: int
  si_started :: int
  si_ended :: int
  si_status :: string

text \<open>
  A stored result. The web layer only reads the hash (the result ID), the hash of the
  source event (the parent link) and the false-positive flag, kept here as
  \<^verbatim>\<open>str()\<close> prints it.
\<close>

record result_row =
  r_scan :: string
  r_hash :: string
  r_source :: string
  r_fp :: string

record db =
  scan_instances :: "string \<rightharpoonup> scan_instance"
  scan_configs :: "string \<rightharpoonup> (string \<times> string) list"
  scan_results :: "result_row list"

definition scanInstanceGet :: "db \<Rightarrow> string \<Rightarrow> scan_instance option" where
  "scanInstanceGet d sid = scan_instances d sid"

definition scanConfigGet :: "db \<Rightarrow> string \<Rightarrow> (string \<times> string) list" where
  "scanConfigGet d sid = (case scan_configs d sid of None \<Rightarrow> [] | Some c \<Rightarrow> c)"

text \<open>
  What a handler gives back: a JSON pair such as \<^verbatim>\<open>["ERROR", msg]\<close>, or the rendered
  error page of \<^verbatim>\<open>self.error(msg)\<close>.
\<close>

datatype web_response = Json string string | ErrorPage string

text \<open>The arguments handed to \<^verbatim>\<open>SpiderFootScanner\<close> when a scan is launched.\<close>

record scan_launch =
  l_scanname :: string
  l_scantarget :: string
  l_targetType :: string
  l_modlist :: "string list"

datatype py_raise = KeyError string | NameError string | TypeError string | AttributeError string

subsection \<open>\<^verbatim>\<open>cleanUserInput\<close>\<close>

definition clean_item :: "string \<Rightarrow> string" where
  "clean_item item =
     (if item = [] then []
      else py_replace ''&quot;'' [CHR 0x22]
             (py_replace ''&amp;'' ''&''
               (py_replace [CHR 0x27] ''&quot;'' (html_escape item))))"

definition cleanUserInput :: "string list \<Rightarrow> string list" where
  "cleanUserInput inputList = map clean_item inputList"

subsection \<open>Module resolution services\<close>

text \<open>
  Modelled from the spec: \<^verbatim>\<open>SpiderFoot.modulesProducing\<close> is not among the sources.
  Section 4.2: the modules whose produced event types intersect the requested types.
\<close>

definition modulesProducing :: "registry \<Rightarrow> string list \<Rightarrow> string list" where
  "modulesProducing reg events =
     map fst (filter (\<lambda>(m, info). list_ex (\<lambda>e. e \<in> set events) (provides info)) reg)"

text \<open>
  Modelled from the spec: \<^verbatim>\<open>SpiderFoot.eventsToModules\<close> is not among the sources.
  Section 4.2: every event type consumed by any module of the given list.
\<close>

definition eventsToModules :: "registry \<Rightarrow> string list \<Rightarrow> string list" where
  "eventsToModules reg mods =
     concat (map (\<lambda>m. case map_of reg m of None \<Rightarrow> [] | Some info \<Rightarrow> consumes info) mods)"

subsection \<open>\<^verbatim>\<open>startscan\<close>: the transitive expansion\<close>

text \<open>
  The innermost loop, \<^verbatim>\<open>for mod in xmods: if mod not in modlist: ...\<close>, on the pair
  (\<^verbatim>\<open>modlist\<close>, \<^verbatim>\<open>newmods\<close>).
\<close>

fun add_mods :: "string list \<Rightarrow> string list \<times> string list \<Rightarrow> string list \<times> string list" where
  "add_mods [] st = st"
| "add_mods (m # xmods) (modlist, newmods) =
     (if m \<in> set modlist then add_mods xmods (modlist, newmods)
      else add_mods xmods (modlist @ [m], newmods @ [m]))"

text \<open>The loop \<^verbatim>\<open>for etype in sf.eventsToModules(newmodcpy)\<close>.\<close>

fun add_types :: "registry \<Rightarrow> string list \<Rightarrow> string list \<times> string list \<Rightarrow> string list \<times> string list" where
  "add_types reg [] st = st"
| "add_types reg (etype # etypes) st =
     add_types reg etypes (add_mods (modulesProducing reg [etype]) st)"

text \<open>
  The loop \<^verbatim>\<open>while len(newmodcpy) > 0\<close>. Not returning is the value \<open>None\<close>. After a
  round \<^verbatim>\<open>newmodcpy\<close> is what the round collected in \<^verbatim>\<open>newmods\<close>, and \<^verbatim>\<open>newmods\<close>
  is empty again.
\<close>

partial_function (option) expand ::
  "registry \<Rightarrow> string list \<Rightarrow> string list \<Rightarrow> string list \<Rightarrow> string list option" where
  "expand reg modlist newmods newmodcpy =
     (if length newmodcpy > 0
      then (case add_types reg (eventsToModules reg newmodcpy) (modlist, newmods) of
              (modlist', newmods') \<Rightarrow> expand reg modlist' [] newmods')
      else Some modlist)"

text \<open>Selection by produced types: lines 1154 to 1170.\<close>

definition select_by_types :: "registry \<Rightarrow> string \<Rightarrow> string list option" where
  "select_by_types reg typelist =
     (let typesx = py_split CHR '','' (py_replace ''type_'' [] typelist);
          modlist = modulesProducing reg typesx
      in expand reg modlist modlist modlist)"

text \<open>Selection by use case: lines 1174 to 1176.\<close>

definition select_by_usecase :: "registry \<Rightarrow> string \<Rightarrow> string list" where
  "select_by_usecase reg usecase =
     map fst (filter (\<lambda>(m, info). usecase = ''all'' \<or> usecase \<in> set (group info)) reg)"

text \<open>The three selections in the order of the source: lines 1146 to 1176.\<close>

definition resolve_modules :: "registry \<Rightarrow> string \<Rightarrow> string \<Rightarrow> string \<Rightarrow> string list option" where
  "resolve_modules reg modulelist typelist usecase =
     (let modlist1 = (if modulelist \<noteq> []
                      then py_split CHR '','' (py_replace ''module_'' [] modulelist)
                      else [])
      in case (if length modlist1 = 0 \<and> typelist \<noteq> []
               then select_by_types reg typelist else Some modlist1) of
           None \<Rightarrow> None
         | Some modlist2 \<Rightarrow>
             Some (if length modlist2 = 0 \<and> usecase \<noteq> []
                   then select_by_usecase reg usecase else modlist2))"

text \<open>The policy additions: lines 1186 to 1193.\<close>

definition finalize_modlist :: "string list \<Rightarrow> string list" where
  "finalize_modlist modlist =
     (let modlist1 = (if \<not> ''sfp__stor_db'' \<in> set modlist
                      then modlist @ [''sfp__stor_db''] else modlist);
          modlist2 = sort modlist1
      in if ''sfp__stor_stdout'' \<in> set modlist2
         then remove1 ''sfp__stor_stdout'' modlist2 else modlist2)"

definition usage_error :: "bool \<Rightarrow> string \<Rightarrow> string \<Rightarrow> web_response" where
  "usage_error accept_json jmsg pmsg =
     (if accept_json then Json ''ERROR'' jmsg else ErrorPage pmsg)"

text \<open>
  \<^verbatim>\<open>startscan\<close> up to the launch of the scanner process. \<open>targetTypeFromString\<close>
  is the classifier of \<^verbatim>\<open>SpiderFootHelpers\<close>, a parameter here; \<open>accept_json\<close> says
  whether the request's Accept header asks for JSON. The result is \<open>None\<close> when the
  expansion loop does not return.
\<close>

definition startscan ::
  "(string \<Rightarrow> string option) \<Rightarrow> registry \<Rightarrow> bool \<Rightarrow>
     string \<Rightarrow> string \<Rightarrow> string \<Rightarrow> string \<Rightarrow> string \<Rightarrow> (web_response + scan_launch) option" where
  "startscan targetTypeFromString reg accept_json scanname0 scantarget0 modulelist typelist usecase =
     (let scanname = clean_item scanname0; scantarget = clean_item scantarget0
      in if scanname = [] then
           Some (Inl (usage_error accept_json ''Incorrect usage: scan name was not specified.''
                        ''Invalid request: scan name was not specified.''))
         else if scantarget = [] then
           Some (Inl (usage_error accept_json ''Incorrect usage: scan target was not specified.''
                        ''Invalid request: scan target was not specified.''))
         else if typelist = [] \<and> modulelist = [] \<and> usecase = [] then
           Some (Inl (usage_error accept_json ''Incorrect usage: no modules specified for scan.''
                        ''Invalid request: no modules specified for scan.''))
         else case targetTypeFromString scantarget of
           None \<Rightarrow>
             Some (Inl (usage_error accept_json ''Unrecognised target type.''
                          ''Invalid target type. Could not recognize it as a target SpiderFoot supports.''))
         | Some targetType \<Rightarrow>
             (case resolve_modules reg modulelist typelist usecase of
                None \<Rightarrow> None
              | Some modlist \<Rightarrow>
                  if modlist = [] then
                    Some (Inl (usage_error accept_json ''Incorrect usage: no modules specified for scan.''
                                 ''Invalid request: no modules specified for scan.''))
                  else
                    Some (Inr \<lparr> l_scanname = scanname,
                                l_scantarget =
                                  (if targetType \<in> set [''HUMAN_NAME'', ''USERNAME'', ''BITCOIN_ADDRESS'']
                                   then py_replace [CHR 0x22] [] scantarget
                                   else py_lower scantarget),
                                l_targetType = targetType,
                                l_modlist = finalize_modlist modlist \<rparr>)))"

subsection \<open>\<^verbatim>\<open>rerunscan\<close>\<close>

text \<open>
  \<^verbatim>\<open>rerunscan\<close> up to the launch. A stored configuration without the key
  \<^verbatim>\<open>_modulesenabled\<close> raises; a target that is still not classified after the quoted
  retry is passed on as \<^verbatim>\<open>None\<close>.
\<close>

record rerun_launch =
  rl_scanname :: string
  rl_scantarget :: string
  rl_targetType :: "string option"
  rl_modlist :: "string list"

definition rerun_modlist :: "string \<Rightarrow> string list" where
  "rerun_modlist enabled =
     (let modlist = py_split CHR '','' enabled
      in if ''sfp__stor_stdout'' \<in> set modlist
         then remove1 ''sfp__stor_stdout'' modlist else modlist)"

definition rerunscan ::
  "(string \<Rightarrow> string option) \<Rightarrow> db \<Rightarrow> string \<Rightarrow> py_raise + (web_response + rerun_launch)" where
  "rerunscan targetTypeFromString d sid =
     (case scanInstanceGet d sid of
        None \<Rightarrow> Inr (Inl (ErrorPage ''Invalid scan ID.''))
      | Some info \<Rightarrow>
          (let scanname = si_name info; scantarget = si_target info;
               scanconfig = scanConfigGet d sid
           in if scanconfig = [] then
                Inr (Inl (ErrorPage (''Error loading config from scan: '' @ sid)))
              else case map_of scanconfig ''_modulesenabled'' of
                None \<Rightarrow> Inl (KeyError ''_modulesenabled'')
              | Some enabled \<Rightarrow>
                  (let modlist = rerun_modlist enabled;
                       t1 = targetTypeFromString scantarget;
                       targetType = (if t1 = None \<or> t1 = Some []
                                     then targetTypeFromString ([CHR 0x22] @ scantarget @ [CHR 0x22])
                                     else t1)
                   in Inr (Inr \<lparr> rl_scanname = scanname,
                                  rl_scantarget =
                                    (if targetType = Some ''HUMAN_NAME'' \<or> targetType = Some ''BITCOIN_ADDRESS''
                                     then scantarget else py_lower scantarget),
                                  rl_targetType = targetType,
                                  rl_modlist = modlist \<rparr>))))"

subsection \<open>The event store queries behind \<^verbatim>\<open>resultsetfp\<close>\<close>

text \<open>
  Modelled from the spec: \<^verbatim>\<open>SpiderFootDb.scanElementSourcesDirect\<close> is not among the
  sources. Sections 6 and 9: for the given results of a scan, their direct parent
  results. A row pairs a result with the parent its source link names; column 14 of
  the source's row is the false-positive flag of that parent.
\<close>

definition scanElementSourcesDirect :: "db \<Rightarrow> string \<Rightarrow> string list \<Rightarrow> (result_row \<times> result_row) list" where
  "scanElementSourcesDirect d sid ids =
     concat (map (\<lambda>c. map (\<lambda>s. (c, s))
                          (filter (\<lambda>s. r_scan s = sid \<and> r_hash s = r_source c) (scan_results d)))
                 (filter (\<lambda>c. r_scan c = sid \<and> r_hash c \<in> set ids) (scan_results d)))"

text \<open>The IDs of the results of a scan whose source link names one of the given IDs.\<close>

definition scanElementChildrenDirect :: "db \<Rightarrow> string \<Rightarrow> string list \<Rightarrow> string list" where
  "scanElementChildrenDirect d sid ids =
     map r_hash (filter (\<lambda>c. r_scan c = sid \<and> r_source c \<in> set ids) (scan_results d))"

text \<open>
  Modelled from the spec: \<^verbatim>\<open>SpiderFootDb.scanElementChildrenAll\<close> is not among the
  sources. Section 4.4, \<^verbatim>\<open>childrenOf\<close>: the transitive closure of the results whose
  parent chain passes through any of the given IDs. The closure is computed level by
  level; \<open>acc\<close> holds the IDs found so far.
\<close>

function children_closure :: "db \<Rightarrow> string \<Rightarrow> string list \<Rightarrow> string list \<Rightarrow> string list" where
  "children_closure d sid frontier acc =
     (let new = remdups (filter (\<lambda>h. h \<notin> set acc) (scanElementChildrenDirect d sid frontier))
      in if new = [] then acc else children_closure d sid new (acc @ new))"
  by pat_completeness auto
termination
proof (relation "measure (\<lambda>(d, sid, frontier, acc). card (r_hash ` set (scan_results d) - set acc))")
  show "wf (measure (\<lambda>(d, sid, frontier, acc). card (r_hash ` set (scan_results d) - set acc)))"
    by simp
next
  fix d :: db and sid :: string and frontier acc new :: "string list"
  assume new: "new = remdups (filter (\<lambda>h. h \<notin> set acc) (scanElementChildrenDirect d sid frontier))"
     and ne: "new \<noteq> []"
  from ne obtain x where x: "x \<in> set new" by (cases new) auto
  have sub: "set new \<subseteq> r_hash ` set (scan_results d) - set acc"
    unfolding new by (auto simp: scanElementChildrenDirect_def)
  have "r_hash ` set (scan_results d) - set (acc @ new) \<subset> r_hash ` set (scan_results d) - set acc"
    using x sub by auto
  then have "card (r_hash ` set (scan_results d) - set (acc @ new))
             < card (r_hash ` set (scan_results d) - set acc)"
    by (intro psubset_card_mono) auto
  then show "((d, sid, new, acc @ new), (d, sid, frontier, acc))
             \<in> measure (\<lambda>(d, sid, frontier, acc). card (r_hash ` set (scan_results d) - set acc))"
    by simp
qed

definition scanElementChildrenAll :: "db \<Rightarrow> string \<Rightarrow> string list \<Rightarrow> string list" where
  "scanElementChildrenAll d sid ids = children_closure d sid ids []"

text \<open>
  Modelled from the spec: \<^verbatim>\<open>SpiderFootDb.scanResultsUpdateFP\<close> is not among the
  sources. Sections 4.4 and 6: the false-positive flag of each named result of the
  scan is set to the given value. The update is taken to succeed.
\<close>

definition scanResultsUpdateFP :: "db \<Rightarrow> string \<Rightarrow> string list \<Rightarrow> string \<Rightarrow> bool \<times> db" where
  "scanResultsUpdateFP d sid hashes fp =
     (True, d\<lparr> scan_results :=
                 map (\<lambda>r. if r_scan r = sid \<and> r_hash r \<in> set hashes then r\<lparr> r_fp := fp \<rparr> else r)
                     (scan_results d) \<rparr>)"

text \<open>
  The descendants of a list of results, as a relation: the results whose parent chain
  passes through one of the given IDs.
\<close>

inductive descendant :: "db \<Rightarrow> string \<Rightarrow> string list \<Rightarrow> string \<Rightarrow> bool"
  for d :: db and sid :: string and ids :: "string list" where
  child: "r \<in> set (scan_results d) \<Longrightarrow> r_scan r = sid \<Longrightarrow> r_source r \<in> set ids
          \<Longrightarrow> descendant d sid ids (r_hash r)"
| step: "descendant d sid ids h \<Longrightarrow> r \<in> set (scan_results d) \<Longrightarrow> r_scan r = sid
          \<Longrightarrow> r_source r = h \<Longrightarrow> descendant d sid ids (r_hash r)"

subsection \<open>\<^verbatim>\<open>resultsetfp\<close>\<close>

text \<open>
  \<open>resultids\<close> is the outcome of \<^verbatim>\<open>json.loads\<close>: \<open>None\<close> when it raises, the decoded
  list of result IDs otherwise. The handler returns its response and leaves the store
  in the second component.
\<close>

definition resultsetfp :: "db \<Rightarrow> string \<Rightarrow> string list option \<Rightarrow> string \<Rightarrow> web_response \<times> db" where
  "resultsetfp d sid resultids fp =
     (if fp \<notin> set [''0'', ''1''] then
        (Json ''ERROR'' ''No FP flag set or not set correctly.'', d)
      else case resultids of
        None \<Rightarrow> (Json ''ERROR'' ''No IDs supplied.'', d)
      | Some ids \<Rightarrow>
          (case scanInstanceGet d sid of
             None \<Rightarrow> (ErrorPage (''Invalid scan ID: '' @ sid), d)
           | Some status \<Rightarrow>
               if si_status status \<notin> set [''ABORTED'', ''FINISHED'', ''ERROR-FAILED''] then
                 (Json ''WARNING'' ''Scan must be in a finished state when setting False Positives.'', d)
               else if fp = ''0'' \<and>
                       list_ex (\<lambda>row. r_fp (snd row) = ''1'') (scanElementSourcesDirect d sid ids) then
                 (Json ''WARNING''
                    (''Cannot unset element '' @ sid @
                     '' as False Positive if a parent element is still False Positive.''), d)
               else
                 (let childs = scanElementChildrenAll d sid ids;
                      allIds = ids @ childs;
                      (ret, d') = scanResultsUpdateFP d sid allIds fp
                  in if ret then (Json ''SUCCESS'' [], d')
                     else (Json ''ERROR'' ''Exception encountered.'', d'))))"

subsection \<open>The stores \<^verbatim>\<open>resultsetfp\<close> works on\<close>

text \<open>
  Modelled from the spec: the store that puts the results is not among the sources.
  Section 3: the false-positive flag of a result defaults to false and is settable
  afterwards, and the hash of a result is its stable identifier within the scan. So
  a store starts with every result unflagged, each under its own ID within its scan,
  and the flags change only through \<^verbatim>\<open>resultsetfp\<close>.
\<close>

inductive reachable :: "db \<Rightarrow> bool" where
  fresh: "list_all (\<lambda>r. r_fp r = ''0'') (scan_results d)
          \<Longrightarrow> distinct (map (\<lambda>r. (r_scan r, r_hash r)) (scan_results d))
          \<Longrightarrow> reachable d"
| request: "reachable d \<Longrightarrow> reachable (snd (resultsetfp d sid resultids fp))"

section \<open>The blocklist module: \<^verbatim>\<open>sfp_voipbl.py\<close>\<close>

subsection \<open>Data\<close>

text \<open>An option value; \<open>truthy\<close> is Python's truth test on it.\<close>

datatype optval = OBool bool | OInt int | OStr string

fun truthy :: "optval \<Rightarrow> bool" where
  "truthy (OBool b) = b"
| "truthy (OInt n) = (n \<noteq> 0)"
| "truthy (OStr s) = (s \<noteq> [])"

text \<open>\<^verbatim>\<open>not self.opts.get(key, False)\<close> is \<open>\<not> opt_enabled opts key\<close>.\<close>

definition opt_enabled :: "(string \<rightharpoonup> optval) \<Rightarrow> string \<Rightarrow> bool" where
  "opt_enabled opts key = (case opts key of None \<Rightarrow> False | Some v \<Rightarrow> truthy v)"

text \<open>An entry of the table \<^verbatim>\<open>malchecks\<close>, and the table itself.\<close>

record malcheck =
  mc_name :: string
  mc_id :: string
  mc_checks :: "string list"
  mc_url :: string
  mc_regex :: "string option"

definition voipbl :: malcheck where
  "voipbl =
     \<lparr> mc_name = ''VOIPBL Publicly Accessible PBX List'',
       mc_id = ''_voipbl'',
       mc_checks = [''ip'', ''netblock''],
       mc_url = ''http://www.voipbl.org/update'',
       mc_regex = Some (''{0}'' @ [CHR 0x5C, CHR ''/'']) \<rparr>"

definition malchecks :: "malcheck list" where
  "malchecks = [voipbl]"

text \<open>The pattern \<^verbatim>\<open>(\d+\.\d+\.\d+\.\d+)\<close> that replaces \<^verbatim>\<open>{0}\<close> for netblocks.\<close>

definition ip_matcher :: string where
  "ip_matcher =
     ''('' @ [CHR 0x5C] @ ''d+'' @ [CHR 0x5C] @ ''.'' @ [CHR 0x5C] @ ''d+'' @ [CHR 0x5C] @ ''.''
       @ [CHR 0x5C] @ ''d+'' @ [CHR 0x5C] @ ''.'' @ [CHR 0x5C] @ ''d+)''"

datatype event = Event (ev_eventType: string) (ev_data: string) (ev_module: string)
  (ev_sourceEvent: "event option")

text \<open>
  What a call does to the world outside the module, in the order in which it happens:
  reads and writes of the fetch cache, a fetch, a containment test of a candidate
  address against the target with its outcome (\<open>None\<close> when the test raises), a poll
  of the stop signal with its answer, and an event handed to \<^verbatim>\<open>notifyListeners\<close>.
\<close>

datatype action =
    CacheGet string
  | FetchUrl string
  | CachePut string
  | Contains string string "bool option"
  | CheckForStop bool
  | Notify event

fun is_notify :: "action \<Rightarrow> bool" where
  "is_notify (Notify e) = True"
| "is_notify a = False"

fun is_poll :: "action \<Rightarrow> bool" where
  "is_poll (CheckForStop b) = True"
| "is_poll a = False"

fun is_contains :: "action \<Rightarrow> bool" where
  "is_contains (Contains ip target r) = True"
| "is_contains a = False"

fun is_match :: "action \<Rightarrow> bool" where
  "is_match (Contains ip target r) = (r = Some True)"
| "is_match a = False"

text \<open>
  The services a module is set up with. \<open>fetchUrl\<close> gives the content of a URL or
  \<open>None\<close>; \<open>hostDomain\<close> the base domain of a host name. \<open>re_findall\<close> and
  \<open>re_match\<close> stand for \<^verbatim>\<open>re.findall\<close> and \<^verbatim>\<open>re.match\<close> with
  \<^verbatim>\<open>re.IGNORECASE\<close>, and \<open>ip_in_net ip target\<close> for
  \<^verbatim>\<open>IPAddress(ip) in IPNetwork(target)\<close>; \<open>None\<close> is a raised exception.
  \<open>stop_at n\<close> is the answer of \<^verbatim>\<open>checkForStop()\<close> when it is asked after \<open>n\<close>
  actions of the running call.
\<close>

record sfc =
  fetchUrl :: "string \<Rightarrow> string option"
  hostDomain :: "string \<Rightarrow> string option"
  re_findall :: "string \<Rightarrow> string \<Rightarrow> string list"
  re_match :: "string \<Rightarrow> string \<Rightarrow> bool option"
  ip_in_net :: "string \<Rightarrow> string \<Rightarrow> bool option"
  stop_at :: "nat \<Rightarrow> bool"

text \<open>
  What outlives a module instance within one process: the dictionary \<^verbatim>\<open>opts\<close>, a
  class attribute shared by every instance of the class, and the fetch cache of the
  services, whose entries are taken to be within their period.
\<close>

record world =
  cls_opts :: "string \<rightharpoonup> optval"
  cache :: "string \<rightharpoonup> string"

text \<open>
  A module instance: \<^verbatim>\<open>self.__name__\<close>, \<^verbatim>\<open>self.sf\<close> and \<^verbatim>\<open>self.results\<close>. The
  last two are \<^verbatim>\<open>None\<close> until \<^verbatim>\<open>setup\<close> assigns them.
\<close>

record module_instance =
  inst_name :: string
  inst_sf :: "sfc option"
  inst_results :: "(string \<rightharpoonup> bool) option"

definition default_opts :: "string \<rightharpoonup> optval" where
  "default_opts =
     [''checkaffiliates'' \<mapsto> OBool True, ''cacheperiod'' \<mapsto> OInt 18,
      ''checknetblocks'' \<mapsto> OBool True, ''checksubnets'' \<mapsto> OBool True]"

text \<open>The class as the import of the module leaves it, and a new instance of it.\<close>

definition initial_world :: world where
  "initial_world = \<lparr> cls_opts = default_opts, cache = Map.empty \<rparr>"

definition new_instance :: "string \<Rightarrow> module_instance" where
  "new_instance name = \<lparr> inst_name = name, inst_sf = None, inst_results = None \<rparr>"

subsection \<open>\<^verbatim>\<open>setup\<close>\<close>

text \<open>
  Modelled from the spec: \<^verbatim>\<open>SpiderFootPlugin.tempStorage\<close> is not among the sources.
  Section 3: the dedup cache of an instance starts empty.
\<close>

definition tempStorage :: "string \<rightharpoonup> bool" where
  "tempStorage = Map.empty"

text \<open>
  \<^verbatim>\<open>self.opts[opt] = userOpts[opt]\<close> writes into the dictionary that \<^verbatim>\<open>self.opts\<close>
  finds, which is the one of the class.
\<close>

definition setup_module :: "world \<Rightarrow> module_instance \<Rightarrow> sfc \<Rightarrow> (string \<rightharpoonup> optval) \<Rightarrow> world \<times> module_instance" where
  "setup_module w inst sf userOpts =
     (w\<lparr> cls_opts := cls_opts w ++ userOpts \<rparr>,
      inst\<lparr> inst_sf := Some sf, inst_results := Some tempStorage \<rparr>)"

subsection \<open>\<^verbatim>\<open>resourceList\<close>\<close>

text \<open>\<^verbatim>\<open>s.strip()\<close>: the white space of Latin-1.\<close>

definition is_space :: "char \<Rightarrow> bool" where
  "is_space c =
     (let n = (of_char c :: nat)
      in (9 \<le> n \<and> n \<le> 13) \<or> (28 \<le> n \<and> n \<le> 32) \<or> n = 133 \<or> n = 160)"

definition py_strip :: "string \<Rightarrow> string" where
  "py_strip s = rev (dropWhile is_space (rev (dropWhile is_space s)))"

definition startswith_hash :: "string \<Rightarrow> bool" where
  "startswith_hash s = (case s of [] \<Rightarrow> False | c # cs \<Rightarrow> c = CHR ''#'')"

text \<open>
  The content of the list: from the cache, or fetched and then cached. The second
  component of a result is the world after the call, the third what the call did.
\<close>

definition get_content ::
  "sfc \<Rightarrow> world \<Rightarrow> malcheck \<Rightarrow> (py_raise + string option) \<times> world \<times> action list" where
  "get_content sf w chk =
     (let key = ''sfmal_'' @ mc_id chk
      in case cache w key of
           Some content \<Rightarrow> (Inr (Some content), w, [CacheGet key])
         | None \<Rightarrow>
             if cls_opts w ''_fetchtimeout'' = None then
               (Inl (KeyError ''_fetchtimeout''), w, [CacheGet key])
             else if cls_opts w ''_useragent'' = None then
               (Inl (KeyError ''_useragent''), w, [CacheGet key])
             else case fetchUrl sf (mc_url chk) of
               None \<Rightarrow> (Inr None, w, [CacheGet key, FetchUrl (mc_url chk)])
             | Some content \<Rightarrow>
                 (Inr (Some content), w\<lparr> cache := (cache w)(key \<mapsto> content) \<rparr>,
                  [CacheGet key, FetchUrl (mc_url chk), CachePut key]))"

text \<open>The candidate addresses of a list: lines 121 to 135.\<close>

definition candidates :: "sfc \<Rightarrow> malcheck \<Rightarrow> string \<Rightarrow> string list" where
  "candidates sf chk content =
     (case mc_regex chk of
        Some rx \<Rightarrow>
          concat (map (\<lambda>line. case re_findall sf (py_replace ''{0}'' ip_matcher rx) line of
                                 [] \<Rightarrow> []
                               | g # gs \<Rightarrow> [g])
                      (py_split (CHR 0x0A) content))
      | None \<Rightarrow> py_split (CHR 0x0A) content)"

text \<open>
  The loop over the candidates, lines 137 to 150: whether a candidate is in the
  netblock, and the containment tests made until then.
\<close>

fun scan_iplist :: "sfc \<Rightarrow> string \<Rightarrow> string list \<Rightarrow> bool \<times> action list" where
  "scan_iplist sf target [] = (False, [])"
| "scan_iplist sf target (ip # iplist) =
     (if length ip < 8 \<or> startswith_hash ip then scan_iplist sf target iplist
      else (let ip' = py_strip ip; r = ip_in_net sf ip' target
            in if r = Some True then (True, [Contains ip' target r])
               else (case scan_iplist sf target iplist of
                       (found, acts) \<Rightarrow> (found, Contains ip' target r # acts))))"

text \<open>
  The loop over the lines for a host name, a domain or an address, lines 163 to 167:
  \<open>Some True\<close> when a line matches, \<open>None\<close> when a match raises.
\<close>

fun match_lines :: "sfc \<Rightarrow> bool \<Rightarrow> string \<Rightarrow> string \<Rightarrow> string list \<Rightarrow> bool option" where
  "match_lines sf is_domain rxDom rxTgt [] = Some False"
| "match_lines sf is_domain rxDom rxTgt (line # lines) =
     (case (if is_domain then re_match sf rxDom line else Some False) of
        None \<Rightarrow> None
      | Some True \<Rightarrow> Some True
      | Some False \<Rightarrow>
          (case re_match sf rxTgt line of
             None \<Rightarrow> None
           | Some True \<Rightarrow> Some True
           | Some False \<Rightarrow> match_lines sf is_domain rxDom rxTgt lines))"

text \<open>The comparison of one check against a target that is not a netblock.\<close>

definition match_target :: "sfc \<Rightarrow> malcheck \<Rightarrow> string \<Rightarrow> string \<Rightarrow> string \<Rightarrow> string \<Rightarrow> bool" where
  "match_target sf chk target targetType targetDom content =
     (case mc_regex chk of
        None \<Rightarrow>
          list_ex (\<lambda>line. line = target \<or> (targetType = ''domain'' \<and> line = targetDom))
                  (py_split (CHR 0x0A) content)
      | Some rx \<Rightarrow>
          match_lines sf (targetType = ''domain'') (py_replace ''{0}'' targetDom rx)
            (py_replace ''{0}'' target rx) (py_split (CHR 0x0A) content) = Some True)"

text \<open>The loop \<^verbatim>\<open>for check in list(malchecks.keys())\<close> of \<^verbatim>\<open>resourceList\<close>.\<close>

fun resourceList_loop ::
  "sfc \<Rightarrow> malcheck list \<Rightarrow> world \<Rightarrow> string \<Rightarrow> string \<Rightarrow> string \<Rightarrow> string
     \<Rightarrow> (py_raise + string option) \<times> world \<times> action list" where
  "resourceList_loop sf [] w rid target targetType targetDom = (Inr None, w, [])"
| "resourceList_loop sf (chk # chks) w rid target targetType targetDom =
     (if rid \<noteq> mc_id chk then resourceList_loop sf chks w rid target targetType targetDom
      else case get_content sf w chk of
        (Inl e, w1, acts) \<Rightarrow> (Inl e, w1, acts)
      | (Inr None, w1, acts) \<Rightarrow> (Inr None, w1, acts)
      | (Inr (Some content), w1, acts) \<Rightarrow>
          if targetType = ''netblock'' then
            (case scan_iplist sf target (candidates sf chk content) of
               (found, acts2) \<Rightarrow>
                 (Inr (if found then Some (mc_url chk) else None), w1, acts @ acts2))
          else if match_target sf chk target targetType targetDom content then
            (Inr (Some (mc_url chk)), w1, acts)
          else
            (case resourceList_loop sf chks w1 rid target targetType targetDom of
               (r, w2, acts3) \<Rightarrow> (r, w2, acts @ acts3)))"

definition resourceList ::
  "sfc \<Rightarrow> world \<Rightarrow> string \<Rightarrow> string \<Rightarrow> string \<Rightarrow> (py_raise + string option) \<times> world \<times> action list" where
  "resourceList sf w rid target targetType =
     (if targetType = ''domain'' then
        (if cls_opts w ''_internettlds'' = None then (Inl (KeyError ''_internettlds''), w, [])
         else case hostDomain sf target of
           None \<Rightarrow> (Inr None, w, [])
         | Some targetDom \<Rightarrow>
             if targetDom = [] then (Inr None, w, [])
             else resourceList_loop sf malchecks w rid target targetType targetDom)
      else resourceList_loop sf malchecks w rid target targetType [])"

subsection \<open>\<^verbatim>\<open>lookupItem\<close> and \<^verbatim>\<open>handleEvent\<close>\<close>

fun lookupItem_loop ::
  "sfc \<Rightarrow> malcheck list \<Rightarrow> world \<Rightarrow> string \<Rightarrow> string \<Rightarrow> string
     \<Rightarrow> (py_raise + string option) \<times> world \<times> action list" where
  "lookupItem_loop sf [] w resourceId itemType target = (Inr None, w, [])"
| "lookupItem_loop sf (chk # chks) w resourceId itemType target =
     (if mc_id chk = resourceId \<and> itemType \<in> set (mc_checks chk)
      then resourceList sf w (mc_id chk) target itemType
      else lookupItem_loop sf chks w resourceId itemType target)"

definition lookupItem ::
  "sfc \<Rightarrow> world \<Rightarrow> string \<Rightarrow> string \<Rightarrow> string \<Rightarrow> (py_raise + string option) \<times> world \<times> action list" where
  "lookupItem sf w resourceId itemType target =
     lookupItem_loop sf malchecks w resourceId itemType target"

text \<open>
  The assignments of \<^verbatim>\<open>typeId\<close> and \<^verbatim>\<open>evtType\<close>, lines 210 to 236; \<open>None\<close> when no
  branch assigns them. The statements of the source are a sequence in which a later
  one overrides an earlier one, so the last one is asked first.
\<close>

definition event_kind :: "string \<Rightarrow> (string \<times> string) option" where
  "event_kind eventName =
     (if eventName = ''NETBLOCK_MEMBER'' then Some (''netblock'', ''MALICIOUS_SUBNET'')
      else if eventName = ''NETBLOCK_OWNER'' then Some (''netblock'', ''MALICIOUS_NETBLOCK'')
      else if eventName \<in> set [''INTERNET_NAME'', ''CO_HOSTED_SITE'', ''AFFILIATE_INTERNET_NAME'']
        then Some (''domain'',
                   if eventName = ''CO_HOSTED_SITE'' then ''MALICIOUS_COHOST''
                   else if eventName = ''AFFILIATE_INTERNET_NAME''
                     then ''MALICIOUS_AFFILIATE_INTERNET_NAME''
                   else ''MALICIOUS_INTERNET_NAME'')
      else if eventName \<in> set [''BGP_AS_OWNER'', ''BGP_AS_MEMBER'']
        then Some (''asn'', ''MALICIOUS_ASN'')
      else if eventName \<in> set [''IP_ADDRESS'', ''AFFILIATE_IPADDR'']
        then Some (''ip'',
                   if eventName = ''IP_ADDRESS'' then ''MALICIOUS_IPADDR''
                   else ''MALICIOUS_AFFILIATE_IPADDR'')
      else None)"

text \<open>The text of an emitted event, line 245.\<close>

definition event_text :: "string \<Rightarrow> string \<Rightarrow> string \<Rightarrow> string" where
  "event_text check eventData url =
     check @ '' ['' @ eventData @ '']'' @ [CHR 0x0A] @ ''<SFURL>'' @ url @ ''</SFURL>''"

text \<open>
  The loop \<^verbatim>\<open>for check in list(malchecks.keys())\<close> of \<^verbatim>\<open>handleEvent\<close>, lines 207
  to 247. \<open>n\<close> counts the actions of the call so far.
\<close>

fun handle_loop ::
  "sfc \<Rightarrow> string \<Rightarrow> malcheck list \<Rightarrow> world \<Rightarrow> event \<Rightarrow> nat
     \<Rightarrow> (py_raise + unit) \<times> world \<times> action list" where
  "handle_loop sf name [] w event n = (Inr (), w, [])"
| "handle_loop sf name (chk # chks) w event n =
     (case event_kind (ev_eventType event) of
        None \<Rightarrow> (Inl (NameError ''typeId''), w, [])
      | Some (typeId, evtType) \<Rightarrow>
          (case lookupItem sf w (mc_id chk) typeId (ev_data event) of
             (Inl e, w1, acts) \<Rightarrow> (Inl e, w1, acts)
           | (Inr url, w1, acts) \<Rightarrow>
               if stop_at sf (n + length acts) then (Inr (), w1, acts @ [CheckForStop True])
               else (let emitted =
                           (case url of
                              None \<Rightarrow> []
                            | Some u \<Rightarrow>
                                [Notify (Event evtType (event_text (mc_name chk) (ev_data event) u)
                                           name (Some event))])
                     in case handle_loop sf name chks w1 event
                               (n + length acts + 1 + length emitted) of
                          (r, w2, acts2) \<Rightarrow>
                            (r, w2, acts @ [CheckForStop False] @ emitted @ acts2))))"

text \<open>
  \<^verbatim>\<open>handleEvent\<close>: the outcome, the world and the instance after the call, and what
  the call did. Before \<^verbatim>\<open>setup\<close> the call raises.
\<close>

definition handleEvent ::
  "world \<Rightarrow> module_instance \<Rightarrow> event \<Rightarrow> (py_raise + unit) \<times> world \<times> module_instance \<times> action list" where
  "handleEvent w inst event =
     (case inst_sf inst of
        None \<Rightarrow> (Inl (AttributeError ''debug''), w, inst, [])
      | Some sf \<Rightarrow>
          (case inst_results inst of
             None \<Rightarrow> (Inl (TypeError ''argument of type NoneType is not iterable''), w, inst, [])
           | Some results \<Rightarrow>
               if results (ev_data event) \<noteq> None then (Inr (), w, inst, [])
               else
                 (let inst1 = inst\<lparr> inst_results := Some (results(ev_data event \<mapsto> True)) \<rparr>;
                      eventName = ev_eventType event
                  in if eventName = ''CO_HOSTED_SITE'' \<and> \<not> opt_enabled (cls_opts w) ''checkcohosts''
                       then (Inr (), w, inst1, [])
                     else if eventName = ''AFFILIATE_IPADDR'' \<and> \<not> opt_enabled (cls_opts w) ''checkaffiliates''
                       then (Inr (), w, inst1, [])
                     else if eventName = ''NETBLOCK_OWNER'' \<and> \<not> opt_enabled (cls_opts w) ''checknetblocks''
                       then (Inr (), w, inst1, [])
                     else if eventName = ''NETBLOCK_MEMBER'' \<and> \<not> opt_enabled (cls_opts w) ''checksubnets''
                       then (Inr (), w, inst1, [])
                     else (case handle_loop sf (inst_name inst) malchecks w event 0 of
                             (r, w1, acts) \<Rightarrow> (r, w1, inst1, acts)))))"

text \<open>The events a call emitted.\<close>

definition emitted_events :: "action list \<Rightarrow> event list" where
  "emitted_events acts = concat (map (\<lambda>a. case a of Notify e \<Rightarrow> [e] | _ \<Rightarrow> []) acts)"

text \<open>
  The start of a scan in a process whose class state is \<open>w\<close>: a new instance of the
  module is made and set up.
\<close>

definition start_scan :: "world \<Rightarrow> sfc \<Rightarrow> (string \<rightharpoonup> optval) \<Rightarrow> world \<times> module_instance" where
  "start_scan w sf userOpts = setup_module w (new_instance ''sfp_voipbl'') sf userOpts"

text \<open>
  Modelled from the spec: the dispatch loop that delivers the events of a scan is not
  among the sources. Section 4.3: each event taken from the queue is delivered to the
  module's \<^verbatim>\<open>handleEvent\<close>. The deliveries to one instance, in their order: each call
  starts from the world and the instance that the call before it left, also when that
  call raised.
\<close>

fun handle_events :: "world \<Rightarrow> module_instance \<Rightarrow> event list \<Rightarrow> world \<times> module_instance \<times> action list" where
  "handle_events w inst [] = (w, inst, [])"
| "handle_events w inst (e # es) =
     (case handleEvent w inst e of
        (r, w1, inst1, acts) \<Rightarrow>
          (case handle_events w1 inst1 es of
             (w2, inst2, acts2) \<Rightarrow> (w2, inst2, acts @ acts2)))"

text \<open>A list of actions without a poll of the stop signal and without an emitted event.\<close>

definition quiet :: "action list \<Rightarrow> bool" where
  "quiet acts = list_all (\<lambda>a. \<not> is_poll a \<and> \<not> is_notify a) acts"

section \<open>A concrete instance of the library functions\<close>

text \<open>
  For the examples the regular expressions and the address arithmetic are fixed to
  what the module asks of them on IPv4 text. \<open>findall_ip_slash\<close> is \<^verbatim>\<open>re.findall\<close>
  for the pattern \<^verbatim>\<open>(\d+\.\d+\.\d+\.\d+)\/\<close>: a run of digits cannot be followed by
  a digit, so each of the four runs is maximal and a match is tried at each position
  from the left.
\<close>

definition is_digit :: "char \<Rightarrow> bool" where
  "is_digit c = (c \<in> set ''0123456789'')"

definition digits_then :: "char \<Rightarrow> string \<Rightarrow> (string \<times> string) option" where
  "digits_then c s =
     (let d = takeWhile is_digit s
      in if d = [] then None
         else case dropWhile is_digit s of
                [] \<Rightarrow> None
              | x # xs \<Rightarrow> if x = c then Some (d, xs) else None)"

definition match_ip_slash :: "string \<Rightarrow> string option" where
  "match_ip_slash s =
     (case digits_then (CHR ''.'') s of
        None \<Rightarrow> None
      | Some (a, s1) \<Rightarrow>
          (case digits_then (CHR ''.'') s1 of
             None \<Rightarrow> None
           | Some (b, s2) \<Rightarrow>
               (case digits_then (CHR ''.'') s2 of
                  None \<Rightarrow> None
                | Some (c, s3) \<Rightarrow>
                    (case digits_then (CHR ''/'') s3 of
                       None \<Rightarrow> None
                     | Some (d, s4) \<Rightarrow> Some (a @ ''.'' @ b @ ''.'' @ c @ ''.'' @ d)))))"

text \<open>\<open>skip\<close> is the number of characters still covered by the last match.\<close>

fun findall_ip_slash :: "nat \<Rightarrow> string \<Rightarrow> string list" where
  "findall_ip_slash skip [] = []"
| "findall_ip_slash skip (c # cs) =
     (if skip > 0 then findall_ip_slash (skip - 1) cs
      else case match_ip_slash (c # cs) of
             None \<Rightarrow> findall_ip_slash 0 cs
           | Some g \<Rightarrow> g # findall_ip_slash (length g) cs)"

definition lib_findall :: "string \<Rightarrow> string \<Rightarrow> string list" where
  "lib_findall pattern line =
     (if pattern = ip_matcher @ [CHR 0x5C, CHR ''/''] then findall_ip_slash 0 line else [])"

text \<open>
  \<^verbatim>\<open>re.match\<close> for a pattern made of plain characters, dots and escaped characters,
  which is what a dotted address followed by \<^verbatim>\<open>\/\<close> is: the pattern has to match a
  prefix of the line.
\<close>

fun match_prefix :: "string \<Rightarrow> string \<Rightarrow> bool" where
  "match_prefix [] line = True"
| "match_prefix (p # ps) [] = False"
| "match_prefix (p # ps) (c # cs) =
     (if p = CHR 0x5C then
        (case ps of
           [] \<Rightarrow> False
         | q # qs \<Rightarrow> lower_char q = lower_char c \<and> match_prefix qs cs)
      else if p = CHR ''.'' then c \<noteq> CHR 0x0A \<and> match_prefix ps cs
      else lower_char p = lower_char c \<and> match_prefix ps cs)"

definition lib_match :: "string \<Rightarrow> string \<Rightarrow> bool option" where
  "lib_match pattern line = Some (match_prefix pattern line)"

text \<open>
  Dotted-quad addresses and CIDR netblocks: an address is four decimal octets, a
  netblock an address with an optional prefix length, 32 when there is none, and an
  address is in a netblock when both agree on the leading bits the prefix names.
\<close>

definition digit_val :: "char \<Rightarrow> int" where
  "digit_val c = (of_char c :: int) - 48"

definition decimal :: "string \<Rightarrow> int option" where
  "decimal s =
     (if s = [] \<or> \<not> list_all is_digit s then None
      else Some (foldl (\<lambda>acc c. 10 * acc + digit_val c) 0 s))"

definition parse_ipv4 :: "string \<Rightarrow> int option" where
  "parse_ipv4 s =
     (case map decimal (py_split (CHR ''.'') s) of
        [Some a, Some b, Some c, Some d] \<Rightarrow>
          if a \<le> 255 \<and> b \<le> 255 \<and> c \<le> 255 \<and> d \<le> 255
          then Some (((a * 256 + b) * 256 + c) * 256 + d) else None
      | _ \<Rightarrow> None)"

definition parse_net :: "string \<Rightarrow> (int \<times> int) option" where
  "parse_net s =
     (case py_split (CHR ''/'') s of
        [a] \<Rightarrow> (case parse_ipv4 a of None \<Rightarrow> None | Some x \<Rightarrow> Some (x, 32))
      | [a, p] \<Rightarrow>
          (case (parse_ipv4 a, decimal p) of
             (Some x, Some n) \<Rightarrow> if n \<le> 32 then Some (x, n) else None
           | _ \<Rightarrow> None)
      | _ \<Rightarrow> None)"

definition lib_ip_in_net :: "string \<Rightarrow> string \<Rightarrow> bool option" where
  "lib_ip_in_net ip target =
     (case (parse_ipv4 ip, parse_net target) of
        (Some x, Some (net, n)) \<Rightarrow>
          Some (x div 2 ^ nat (32 - n) = net div 2 ^ nat (32 - n))
      | _ \<Rightarrow> None)"

section \<open>Concrete configurations used in the examples\<close>

definition example_classifier :: "string \<Rightarrow> string option" where
  "example_classifier s = Some ''INTERNET_NAME''"

text \<open>A finished scan whose stored module list is neither sorted nor has the storage module.\<close>

definition example_rerun_db :: db where
  "example_rerun_db =
     \<lparr> scan_instances =
         [''S1'' \<mapsto> \<lparr> si_name = ''first'', si_target = ''example.com'', si_created = 1,
                        si_started = 2, si_ended = 3, si_status = ''FINISHED'' \<rparr>],
       scan_configs = [''S1'' \<mapsto> [(''_modulesenabled'', ''sfp_dnsresolve,sfp_abusech'')]],
       scan_results = [] \<rparr>"

text \<open>A finished scan that was started with the policy additions applied.\<close>

definition example_rerun_db2 :: db where
  "example_rerun_db2 =
     \<lparr> scan_instances =
         [''S2'' \<mapsto> \<lparr> si_name = ''second'', si_target = ''example.com'', si_created = 1,
                        si_started = 2, si_ended = 3, si_status = ''FINISHED'' \<rparr>],
       scan_configs = [''S2'' \<mapsto> [(''_modulesenabled'', ''sfp__stor_db,sfp_abusech'')]],
       scan_results = [] \<rparr>"

definition example_registry :: registry where
  "example_registry =
     [(''sfp_a'', \<lparr> provides = [''X''], consumes = [], group = [''Passive''] \<rparr>),
      (''sfp_b'', \<lparr> provides = [''Y''], consumes = [''X''], group = [''Passive''] \<rparr>),
      (''sfp__stor_db'', \<lparr> provides = [], consumes = [''*''], group = [] \<rparr>)]"

text \<open>
  A finished scan with the chain \<open>g\<close>, \<open>p\<close>, \<open>c\<close> below the root: \<open>g\<close> is flagged,
  its child \<open>p\<close> is not, the grandchild \<open>c\<close> is.
\<close>

definition example_fp_db :: db where
  "example_fp_db =
     \<lparr> scan_instances =
         [''S'' \<mapsto> \<lparr> si_name = ''scan'', si_target = ''example.com'', si_created = 1,
                       si_started = 2, si_ended = 3, si_status = ''FINISHED'' \<rparr>],
       scan_configs = Map.empty,
       scan_results =
         [\<lparr> r_scan = ''S'', r_hash = ''ROOT'', r_source = ''ROOT'', r_fp = ''0'' \<rparr>,
          \<lparr> r_scan = ''S'', r_hash = ''g'', r_source = ''ROOT'', r_fp = ''1'' \<rparr>,
          \<lparr> r_scan = ''S'', r_hash = ''p'', r_source = ''g'', r_fp = ''0'' \<rparr>,
          \<lparr> r_scan = ''S'', r_hash = ''c'', r_source = ''p'', r_fp = ''1'' \<rparr>] \<rparr>"

text \<open>The same scan with no result flagged.\<close>

definition example_clean_db :: db where
  "example_clean_db =
     \<lparr> scan_instances =
         [''S'' \<mapsto> \<lparr> si_name = ''scan'', si_target = ''example.com'', si_created = 1,
                       si_started = 2, si_ended = 3, si_status = ''FINISHED'' \<rparr>],
       scan_configs = Map.empty,
       scan_results =
         [\<lparr> r_scan = ''S'', r_hash = ''ROOT'', r_source = ''ROOT'', r_fp = ''0'' \<rparr>,
          \<lparr> r_scan = ''S'', r_hash = ''g'', r_source = ''ROOT'', r_fp = ''0'' \<rparr>,
          \<lparr> r_scan = ''S'', r_hash = ''p'', r_source = ''g'', r_fp = ''0'' \<rparr>,
          \<lparr> r_scan = ''S'', r_hash = ''c'', r_source = ''p'', r_fp = ''0'' \<rparr>] \<rparr>"

text \<open>The same scan while it is still running.\<close>

definition example_running_db :: db where
  "example_running_db =
     example_clean_db \<lparr> scan_instances :=
         [''S'' \<mapsto> \<lparr> si_name = ''scan'', si_target = ''example.com'', si_created = 1,
                       si_started = 2, si_ended = 0, si_status = ''RUNNING'' \<rparr>] \<rparr>"

text \<open>
  Services whose fetch of the list URL gives \<open>content\<close> and whose stop signal is
  \<open>stop\<close> throughout.
\<close>

definition example_sfc :: "string \<Rightarrow> bool \<Rightarrow> sfc" where
  "example_sfc content stop =
     \<lparr> fetchUrl = (\<lambda>url. if url = ''http://www.voipbl.org/update'' then Some content else None),
       hostDomain = (\<lambda>host. None),
       re_findall = lib_findall,
       re_match = lib_match,
       ip_in_net = lib_ip_in_net,
       stop_at = (\<lambda>n. stop) \<rparr>"

text \<open>The global options a scan hands to every module.\<close>

definition example_globals :: "string \<rightharpoonup> optval" where
  "example_globals = [''_fetchtimeout'' \<mapsto> OInt 5, ''_useragent'' \<mapsto> OStr ''SpiderFoot'']"

definition example_root :: event where
  "example_root = Event ''ROOT'' ''example.com'' [] None"

text \<open>Events of a scan of \<^verbatim>\<open>example.com\<close>.\<close>

definition example_netblock_event :: event where
  "example_netblock_event = Event ''NETBLOCK_OWNER'' ''192.0.2.0/24'' ''sfp_ripe'' (Some example_root)"

definition example_far_netblock_event :: event where
  "example_far_netblock_event = Event ''NETBLOCK_OWNER'' ''10.0.0.0/8'' ''sfp_ripe'' (Some example_root)"

definition example_ip_event :: event where
  "example_ip_event = Event ''IP_ADDRESS'' ''192.0.2.1'' ''sfp_dnsresolve'' (Some example_root)"

definition example_affiliate_event :: event where
  "example_affiliate_event
     = Event ''AFFILIATE_IPADDR'' ''192.0.2.10'' ''sfp_dnsresolve'' (Some example_root)"

text \<open>A list of three addresses, one per line.\<close>

definition example_list :: string where
  "example_list = ''192.0.2.10/32'' @ [CHR 0x0A] @ ''192.0.2.11/32'' @ [CHR 0x0A] @ ''192.0.2.12/32''"

definition example_member_event :: event where
  "example_member_event = Event ''NETBLOCK_MEMBER'' ''192.0.2.0/24'' ''sfp_dnsneighbor'' (Some example_root)"

text \<open>The options of a scan that switches the check of affiliates off.\<close>

definition example_overrides :: "string \<rightharpoonup> optval" where
  "example_overrides = example_globals(''checkaffiliates'' \<mapsto> OBool False)"

text \<open>A list that holds the netblock \<^verbatim>\<open>192.0.2.0/24\<close>, and one that holds a short address.\<close>

definition example_netblock_list :: string where
  "example_netblock_list = ''192.0.2.0/24''"

definition example_short_list :: string where
  "example_short_list = ''1.2.3.4/32''"

definition example_short_netblock_event :: event where
  "example_short_netblock_event = Event ''NETBLOCK_OWNER'' ''1.2.3.0/24'' ''sfp_ripe'' (Some example_root)"

section \<open>Properties of the module list\<close>

lemma count_list_insort: "count_list (insort y xs) x = count_list (y # xs) x"
  by (induction xs) auto

lemma count_list_sort: "count_list (sort xs) x = count_list xs x"
  by (induction xs) (auto simp: count_list_insort)

lemma count_list_remove1: "count_list (remove1 x xs) x = count_list xs x - 1"
  by (induction xs) auto

lemma remove1_last_occurrence:
  assumes "count_list xs x \<le> 1"
  shows "x \<notin> set (remove1 x xs)"
proof -
  have "count_list (remove1 x xs) x = 0"
    using assms by (simp add: count_list_remove1)
  then show ?thesis unfolding count_list_0_iff .
qed

lemma finalize_modlist_eq:
  "finalize_modlist modlist =
     remove1 ''sfp__stor_stdout''
       (sort (if ''sfp__stor_db'' \<in> set modlist then modlist else modlist @ [''sfp__stor_db'']))"
  by (simp add: finalize_modlist_def Let_def remove1_idem)

lemma finalize_modlist_stor_db: "''sfp__stor_db'' \<in> set (finalize_modlist modlist)"
  by (simp add: finalize_modlist_eq)

lemma finalize_modlist_sorted: "sorted (finalize_modlist modlist)"
  by (simp add: finalize_modlist_eq sorted_remove1)

lemma finalize_modlist_stdout:
  assumes "count_list modlist ''sfp__stor_stdout'' \<le> 1"
  shows "''sfp__stor_stdout'' \<notin> set (finalize_modlist modlist)"
proof -
  let ?ml = "if ''sfp__stor_db'' \<in> set modlist then modlist else modlist @ [''sfp__stor_db'']"
  have "count_list ?ml ''sfp__stor_stdout'' = count_list modlist ''sfp__stor_stdout''"
    by simp
  then have "count_list (sort ?ml) ''sfp__stor_stdout'' \<le> 1"
    using assms by (simp only: count_list_sort)
  then show ?thesis
    unfolding finalize_modlist_eq by (rule remove1_last_occurrence)
qed

lemma rerun_modlist_eq: "rerun_modlist enabled = remove1 ''sfp__stor_stdout'' (py_split CHR '','' enabled)"
  by (simp add: rerun_modlist_def Let_def remove1_idem)

lemma startscan_launch_modlist:
  assumes "startscan tt reg aj scanname scantarget modulelist typelist usecase = Some (Inr l)"
  shows "\<exists>modlist. resolve_modules reg modulelist typelist usecase = Some modlist
           \<and> l_modlist l = finalize_modlist modlist"
  using assms
  by (auto simp: startscan_def Let_def usage_error_def split: if_splits option.splits)

lemma rerunscan_launch_modlist:
  assumes "rerunscan tt d sid = Inr (Inr rl)"
  shows "\<exists>enabled. map_of (scanConfigGet d sid) ''_modulesenabled'' = Some enabled
           \<and> rl_modlist rl = rerun_modlist enabled"
  using assms
  by (auto simp: rerunscan_def Let_def split: if_splits option.splits)

section \<open>The launched module list\<close>

lemma startscan_duplicate_stdout_example:
  "startscan example_classifier example_registry True ''n'' ''example.com''
     ''module_sfp__stor_stdout,module_sfp__stor_stdout'' [] []
   = Some (Inr \<lparr> l_scanname = ''n'', l_scantarget = ''example.com'',
                   l_targetType = ''INTERNET_NAME'',
                   l_modlist = [''sfp__stor_db'', ''sfp__stor_stdout''] \<rparr>)"
  by code_simp

text \<open>
  Claim C3, as the code has it. A new scan start always launches a module list that
  contains \<^verbatim>\<open>sfp__stor_db\<close> and is sorted, and that is free of \<^verbatim>\<open>sfp__stor_stdout\<close>
  when the resolved list names that module at most once. A rerun launches the stored
  module list: it is free of \<^verbatim>\<open>sfp__stor_stdout\<close> when the stored list names it at
  most once, it contains \<^verbatim>\<open>sfp__stor_db\<close> exactly when the stored list does, and it
  is sorted when the stored list is; the storage module is not added and the list is
  not sorted again.
\<close>

theorem scan_launch_module_list:
  "(\<forall>l. startscan tt reg aj scanname scantarget modulelist typelist usecase = Some (Inr l) \<longrightarrow>
        ''sfp__stor_db'' \<in> set (l_modlist l) \<and> sorted (l_modlist l) \<and>
        (\<forall>modlist. resolve_modules reg modulelist typelist usecase = Some modlist \<and>
                    count_list modlist ''sfp__stor_stdout'' \<le> 1 \<longrightarrow>
                    ''sfp__stor_stdout'' \<notin> set (l_modlist l)))
   \<and> (\<forall>rl. rerunscan tt d sid = Inr (Inr rl) \<longrightarrow>
        (\<exists>enabled. map_of (scanConfigGet d sid) ''_modulesenabled'' = Some enabled \<and>
           (count_list (py_split CHR '','' enabled) ''sfp__stor_stdout'' \<le> 1 \<longrightarrow>
              ''sfp__stor_stdout'' \<notin> set (rl_modlist rl)) \<and>
           (''sfp__stor_db'' \<in> set (rl_modlist rl) \<longleftrightarrow>
              ''sfp__stor_db'' \<in> set (py_split CHR '','' enabled)) \<and>
           (sorted (py_split CHR '','' enabled) \<longrightarrow> sorted (rl_modlist rl))))"
proof (intro conjI allI impI)
  fix l
  assume a: "startscan tt reg aj scanname scantarget modulelist typelist usecase = Some (Inr l)"
  from startscan_launch_modlist [OF a] obtain ml where
    ml: "resolve_modules reg modulelist typelist usecase = Some ml"
        "l_modlist l = finalize_modlist ml"
    by blast
  show "''sfp__stor_db'' \<in> set (l_modlist l)"
    by (simp add: ml finalize_modlist_stor_db)
  show "sorted (l_modlist l)"
    by (simp add: ml finalize_modlist_sorted)
  fix modlist
  assume "resolve_modules reg modulelist typelist usecase = Some modlist \<and>
          count_list modlist ''sfp__stor_stdout'' \<le> 1"
  with ml have "count_list ml ''sfp__stor_stdout'' \<le> 1" by simp
  then show "''sfp__stor_stdout'' \<notin> set (l_modlist l)"
    by (simp only: ml finalize_modlist_stdout not_False_eq_True)
next
  fix rl
  assume a: "rerunscan tt d sid = Inr (Inr rl)"
  from rerunscan_launch_modlist [OF a] obtain enabled where
    en: "map_of (scanConfigGet d sid) ''_modulesenabled'' = Some enabled"
        "rl_modlist rl = rerun_modlist enabled"
    by blast
  have 1: "count_list (py_split CHR '','' enabled) ''sfp__stor_stdout'' \<le> 1 \<longrightarrow>
           ''sfp__stor_stdout'' \<notin> set (rl_modlist rl)"
    using remove1_last_occurrence [of "py_split CHR '','' enabled" "''sfp__stor_stdout''"]
    by (simp add: en rerun_modlist_eq)
  have 2: "''sfp__stor_db'' \<in> set (rl_modlist rl) \<longleftrightarrow>
           ''sfp__stor_db'' \<in> set (py_split CHR '','' enabled)"
    by (simp add: en rerun_modlist_eq)
  have 3: "sorted (py_split CHR '','' enabled) \<longrightarrow> sorted (rl_modlist rl)"
    by (simp add: en rerun_modlist_eq sorted_remove1)
  from en(1) 1 2 3
  show "\<exists>enabled. map_of (scanConfigGet d sid) ''_modulesenabled'' = Some enabled \<and>
           (count_list (py_split CHR '','' enabled) ''sfp__stor_stdout'' \<le> 1 \<longrightarrow>
              ''sfp__stor_stdout'' \<notin> set (rl_modlist rl)) \<and>
           (''sfp__stor_db'' \<in> set (rl_modlist rl) \<longleftrightarrow>
              ''sfp__stor_db'' \<in> set (py_split CHR '','' enabled)) \<and>
           (sorted (py_split CHR '','' enabled) \<longrightarrow> sorted (rl_modlist rl))"
    by blast
qed

lemma example_startscan_run:
  "startscan example_classifier example_registry True ''n'' ''Example.COM''
     ''module_sfp_b,module_sfp__stor_stdout,module_sfp_a'' [] []
   = Some (Inr \<lparr> l_scanname = ''n'', l_scantarget = ''example.com'',
                   l_targetType = ''INTERNET_NAME'',
                   l_modlist = [''sfp__stor_db'', ''sfp_a'', ''sfp_b''] \<rparr>)"
  by code_simp

lemma example_resolve_run:
  "resolve_modules example_registry ''module_sfp_b,module_sfp__stor_stdout,module_sfp_a'' [] []
   = Some [''sfp_b'', ''sfp__stor_stdout'', ''sfp_a'']"
  by (simp add: resolve_modules_def)

lemma example_rerunscan_run2:
  "rerunscan example_classifier example_rerun_db2 ''S2''
   = Inr (Inr \<lparr> rl_scanname = ''second'', rl_scantarget = ''example.com'',
                 rl_targetType = Some ''INTERNET_NAME'',
                 rl_modlist = [''sfp__stor_db'', ''sfp_abusech''] \<rparr>)"
  by code_simp

theorem scan_launch_module_list_witness:
  "startscan example_classifier example_registry True ''n'' ''Example.COM''
     ''module_sfp_b,module_sfp__stor_stdout,module_sfp_a'' [] []
   = Some (Inr \<lparr> l_scanname = ''n'', l_scantarget = ''example.com'',
                   l_targetType = ''INTERNET_NAME'',
                   l_modlist = [''sfp__stor_db'', ''sfp_a'', ''sfp_b''] \<rparr>)
   \<and> ''sfp__stor_db'' \<in> set [''sfp__stor_db'', ''sfp_a'', ''sfp_b'']
   \<and> sorted [''sfp__stor_db'', ''sfp_a'', ''sfp_b'']
   \<and> count_list [''sfp_b'', ''sfp__stor_stdout'', ''sfp_a''] ''sfp__stor_stdout'' \<le> 1
   \<and> ''sfp__stor_stdout'' \<notin> set [''sfp__stor_db'', ''sfp_a'', ''sfp_b'']
   \<and> rerunscan example_classifier example_rerun_db2 ''S2''
     = Inr (Inr \<lparr> rl_scanname = ''second'', rl_scantarget = ''example.com'',
                   rl_targetType = Some ''INTERNET_NAME'',
                   rl_modlist = [''sfp__stor_db'', ''sfp_abusech''] \<rparr>)
   \<and> sorted (py_split CHR '','' ''sfp__stor_db,sfp_abusech'')"
  using scan_launch_module_list [of example_classifier example_registry True "''n''" "''Example.COM''"
      "''module_sfp_b,module_sfp__stor_stdout,module_sfp_a''" "[]" "[]"
      example_rerun_db2 "''S2''"]
  by (simp add: example_startscan_run example_resolve_run example_rerunscan_run2)

text \<open>
  Claim C3 as stated fails for a rerun: the stored list \<^verbatim>\<open>sfp_dnsresolve,sfp_abusech\<close>
  is launched as it is, without the storage module and unsorted.
\<close>

theorem rerunscan_module_list_counterexample:
  "rerunscan example_classifier example_rerun_db ''S1''
   = Inr (Inr \<lparr> rl_scanname = ''first'', rl_scantarget = ''example.com'',
                 rl_targetType = Some ''INTERNET_NAME'',
                 rl_modlist = [''sfp_dnsresolve'', ''sfp_abusech''] \<rparr>)
   \<and> ''sfp__stor_db'' \<notin> set [''sfp_dnsresolve'', ''sfp_abusech'']
   \<and> \<not> sorted [''sfp_dnsresolve'', ''sfp_abusech'']"
  by code_simp

section \<open>Termination of the transitive expansion\<close>

lemma add_mods_delta:
  "\<exists>ds. add_mods xmods (ml, nm) = (ml @ ds, nm @ ds) \<and> set ds \<subseteq> set xmods \<and> set ds \<inter> set ml = {}"
proof (induction xmods arbitrary: ml nm)
  case Nil
  then show ?case by simp
next
  case (Cons m xmods)
  show ?case
  proof (cases "m \<in> set ml")
    case True
    with Cons.IH [of ml nm] show ?thesis by auto
  next
    case False
    from Cons.IH [of "ml @ [m]" "nm @ [m]"] obtain ds where
      ds: "add_mods xmods (ml @ [m], nm @ [m]) = ((ml @ [m]) @ ds, (nm @ [m]) @ ds)"
          "set ds \<subseteq> set xmods" "set ds \<inter> set (ml @ [m]) = {}"
      by blast
    have "add_mods (m # xmods) (ml, nm) = (ml @ (m # ds), nm @ (m # ds))"
      using False ds(1) by simp
    moreover have "set (m # ds) \<subseteq> set (m # xmods)" using ds(2) by auto
    moreover have "set (m # ds) \<inter> set ml = {}" using ds(3) False by auto
    ultimately show ?thesis by blast
  qed
qed

lemma modulesProducing_names: "set (modulesProducing reg events) \<subseteq> fst ` set reg"
  by (auto simp: modulesProducing_def)

lemma add_types_delta:
  "\<exists>ds. add_types reg etypes (ml, nm) = (ml @ ds, nm @ ds)
        \<and> set ds \<subseteq> fst ` set reg \<and> set ds \<inter> set ml = {}"
proof (induction etypes arbitrary: ml nm)
  case Nil
  then show ?case by simp
next
  case (Cons etype etypes)
  from add_mods_delta [of "modulesProducing reg [etype]" ml nm] obtain ds1 where
    d1: "add_mods (modulesProducing reg [etype]) (ml, nm) = (ml @ ds1, nm @ ds1)"
        "set ds1 \<subseteq> set (modulesProducing reg [etype])" "set ds1 \<inter> set ml = {}"
    by blast
  from Cons.IH [of "ml @ ds1" "nm @ ds1"] obtain ds2 where
    d2: "add_types reg etypes (ml @ ds1, nm @ ds1) = ((ml @ ds1) @ ds2, (nm @ ds1) @ ds2)"
        "set ds2 \<subseteq> fst ` set reg" "set ds2 \<inter> set (ml @ ds1) = {}"
    by blast
  have "add_types reg (etype # etypes) (ml, nm) = (ml @ (ds1 @ ds2), nm @ (ds1 @ ds2))"
    using d1(1) d2(1) by simp
  moreover have "set (ds1 @ ds2) \<subseteq> fst ` set reg"
    using d1(2) d2(2) modulesProducing_names [of reg "[etype]"] by auto
  moreover have "set (ds1 @ ds2) \<inter> set ml = {}"
    using d1(3) d2(3) by auto
  ultimately show ?case by blast
qed

lemma expand_returns_fresh:
  "\<exists>r. expand reg ml [] cpy = Some r"
proof (induction "card (fst ` set reg - set ml)" arbitrary: ml cpy rule: less_induct)
  case less
  show ?case
  proof (cases "cpy = []")
    case True
    then show ?thesis by (subst expand.simps) simp
  next
    case False
    from add_types_delta [of reg "eventsToModules reg cpy" ml "[]"] obtain ds where
      ds: "add_types reg (eventsToModules reg cpy) (ml, []) = (ml @ ds, ds)"
          "set ds \<subseteq> fst ` set reg" "set ds \<inter> set ml = {}"
      by auto
    have step: "expand reg ml [] cpy = expand reg (ml @ ds) [] ds"
      using False ds(1) by (subst expand.simps) simp
    show ?thesis
    proof (cases "ds = []")
      case True
      then show ?thesis unfolding step by (subst expand.simps) simp
    next
      case nonempty: False
      then obtain x where x: "x \<in> set ds" by (cases ds) auto
      have "fst ` set reg - set (ml @ ds) \<subset> fst ` set reg - set ml"
        using x ds(2,3) by auto
      then have "card (fst ` set reg - set (ml @ ds)) < card (fst ` set reg - set ml)"
        by (intro psubset_card_mono) auto
      from less [OF this] show ?thesis unfolding step .
    qed
  qed
qed

lemma expand_returns: "\<exists>r. expand reg modlist newmods newmodcpy = Some r"
proof (cases "newmodcpy = []")
  case True
  then show ?thesis by (subst expand.simps) simp
next
  case False
  obtain ml nm where st: "add_types reg (eventsToModules reg newmodcpy) (modlist, newmods) = (ml, nm)"
    by (cases "add_types reg (eventsToModules reg newmodcpy) (modlist, newmods)")
  have "expand reg modlist newmods newmodcpy = expand reg ml [] nm"
    using False st by (subst expand.simps) simp
  then show ?thesis using expand_returns_fresh [of reg ml nm] by simp
qed

lemma add_mods_set: "set (fst (add_mods xmods (ml, nm))) = set ml \<union> set xmods"
  by (induction xmods arbitrary: ml nm) auto

lemma add_types_set:
  "set (fst (add_types reg etypes (ml, nm)))
   = set ml \<union> (\<Union>e \<in> set etypes. set (modulesProducing reg [e]))"
proof (induction etypes arbitrary: ml nm)
  case Nil
  then show ?case by simp
next
  case (Cons e etypes)
  obtain ml1 nm1 where st: "add_mods (modulesProducing reg [e]) (ml, nm) = (ml1, nm1)"
    by (cases "add_mods (modulesProducing reg [e]) (ml, nm)")
  have "set ml1 = set ml \<union> set (modulesProducing reg [e])"
    using add_mods_set [of "modulesProducing reg [e]" ml nm] st by simp
  with Cons.IH [of ml1 nm1] st show ?case by auto
qed

lemma add_mods_nothing_new:
  "set xmods \<subseteq> set ml \<Longrightarrow> add_mods xmods (ml, nm) = (ml, nm)"
  by (induction xmods) auto

lemma add_types_nothing_new:
  assumes "\<forall>e \<in> set etypes. set (modulesProducing reg [e]) \<subseteq> set ml"
  shows "add_types reg etypes (ml, nm) = (ml, nm)"
  using assms by (induction etypes) (auto simp: add_mods_nothing_new)

lemma eventsToModules_set:
  "set (eventsToModules reg mods) = (\<Union>m \<in> set mods. set (eventsToModules reg [m]))"
  by (auto simp: eventsToModules_def)

text \<open>
  The invariant of the loop: every listed module that is not waiting in
  \<^verbatim>\<open>newmodcpy\<close> has had the producers of all the types it consumes added.
\<close>

lemma expand_fresh_closed:
  assumes "\<forall>m \<in> set ml - set cpy. \<forall>e \<in> set (eventsToModules reg [m]).
             set (modulesProducing reg [e]) \<subseteq> set ml"
  shows "\<exists>r. expand reg ml [] cpy = Some r
           \<and> (\<forall>m \<in> set r. \<forall>e \<in> set (eventsToModules reg [m]).
                 set (modulesProducing reg [e]) \<subseteq> set r)"
  using assms
proof (induction "card (fst ` set reg - set ml)" arbitrary: ml cpy rule: less_induct)
  case less
  show ?case
  proof (cases "cpy = []")
    case True
    then have "expand reg ml [] cpy = Some ml" by (subst expand.simps) simp
    with less.prems True show ?thesis by simp
  next
    case False
    from add_types_delta [of reg "eventsToModules reg cpy" ml "[]"] obtain ds where
      ds: "add_types reg (eventsToModules reg cpy) (ml, []) = (ml @ ds, ds)"
          "set ds \<subseteq> fst ` set reg" "set ds \<inter> set ml = {}"
      by auto
    have step: "expand reg ml [] cpy = expand reg (ml @ ds) [] ds"
      using False ds(1) by (subst expand.simps) simp
    have cover: "set (ml @ ds) = set ml \<union> (\<Union>e \<in> set (eventsToModules reg cpy). set (modulesProducing reg [e]))"
      using add_types_set [of reg "eventsToModules reg cpy" ml "[]"] ds(1) by simp
    have inv: "\<forall>m \<in> set (ml @ ds) - set ds. \<forall>e \<in> set (eventsToModules reg [m]).
                 set (modulesProducing reg [e]) \<subseteq> set (ml @ ds)"
    proof (intro ballI)
      fix m e
      assume m: "m \<in> set (ml @ ds) - set ds" and e: "e \<in> set (eventsToModules reg [m])"
      then have ml: "m \<in> set ml" by auto
      show "set (modulesProducing reg [e]) \<subseteq> set (ml @ ds)"
      proof (cases "m \<in> set cpy")
        case True
        with e have "e \<in> set (eventsToModules reg cpy)"
          by (subst eventsToModules_set) blast
        then show ?thesis unfolding cover by blast
      next
        case False
        with ml e less.prems have "set (modulesProducing reg [e]) \<subseteq> set ml" by blast
        then show ?thesis by auto
      qed
    qed
    show ?thesis
    proof (cases "ds = []")
      case True
      have "expand reg (ml @ ds) [] ds = Some ml"
        using True by (subst expand.simps) simp
      with inv True show ?thesis unfolding step by simp
    next
      case nonempty: False
      then obtain x where x: "x \<in> set ds" by (cases ds) auto
      have "fst ` set reg - set (ml @ ds) \<subset> fst ` set reg - set ml"
        using x ds(2,3) by auto
      then have "card (fst ` set reg - set (ml @ ds)) < card (fst ` set reg - set ml)"
        by (intro psubset_card_mono) auto
      from less.hyps [OF this inv] show ?thesis unfolding step .
    qed
  qed
qed

lemma select_by_types_fixed_point:
  "\<exists>r. select_by_types reg typelist = Some r
       \<and> add_types reg (eventsToModules reg r) (r, []) = (r, [])"
proof -
  let ?m0 = "modulesProducing reg (py_split CHR '','' (py_replace ''type_'' [] typelist))"
  have sel: "select_by_types reg typelist = expand reg ?m0 ?m0 ?m0"
    by (simp add: select_by_types_def Let_def)
  have "\<exists>r. expand reg ?m0 ?m0 ?m0 = Some r
          \<and> (\<forall>m \<in> set r. \<forall>e \<in> set (eventsToModules reg [m]).
                 set (modulesProducing reg [e]) \<subseteq> set r)"
  proof (cases "?m0 = []")
    case True
    then have "expand reg ?m0 ?m0 ?m0 = Some []" by (subst expand.simps) simp
    then show ?thesis by simp
  next
    case False
    from add_types_delta [of reg "eventsToModules reg ?m0" ?m0 ?m0] obtain ds where
      ds: "add_types reg (eventsToModules reg ?m0) (?m0, ?m0) = (?m0 @ ds, ?m0 @ ds)"
      by auto
    have step: "expand reg ?m0 ?m0 ?m0 = expand reg (?m0 @ ds) [] (?m0 @ ds)"
      using False ds by (subst expand.simps) simp
    show ?thesis
      unfolding step by (rule expand_fresh_closed) simp
  qed
  then obtain r where r: "expand reg ?m0 ?m0 ?m0 = Some r"
      "\<forall>m \<in> set r. \<forall>e \<in> set (eventsToModules reg [m]). set (modulesProducing reg [e]) \<subseteq> set r"
    by blast
  have "\<forall>e \<in> set (eventsToModules reg r). set (modulesProducing reg [e]) \<subseteq> set r"
    using r(2) by (subst eventsToModules_set) blast
  then have "add_types reg (eventsToModules reg r) (r, []) = (r, [])"
    by (rule add_types_nothing_new)
  with r(1) sel show ?thesis by simp
qed

text \<open>
  Claim C7. For every registry and every requested type list the expansion loop
  returns: each round after the first either collects no new module, and the loop
  ends, or adds a registry module that the list did not hold. The selection by types
  therefore returns, and what it returns is a fixed point, in that one more round
  over the whole result adds no module; \<^verbatim>\<open>startscan\<close> returns as well.
\<close>

theorem transitive_expansion_terminates:
  "(\<exists>r. expand reg modlist newmods newmodcpy = Some r)
   \<and> (\<exists>r. select_by_types reg typelist = Some r
          \<and> add_types reg (eventsToModules reg r) (r, []) = (r, []))
   \<and> (\<exists>r. startscan tt reg aj scanname scantarget modulelist typelist usecase = Some r)"
proof (intro conjI)
  show "\<exists>r. expand reg modlist newmods newmodcpy = Some r"
    by (rule expand_returns)
  show "\<exists>r. select_by_types reg typelist = Some r
          \<and> add_types reg (eventsToModules reg r) (r, []) = (r, [])"
    by (rule select_by_types_fixed_point)
  then have "\<exists>r. resolve_modules reg modulelist typelist usecase = Some r"
    by (auto simp: resolve_modules_def Let_def)
  then show "\<exists>r. startscan tt reg aj scanname scantarget modulelist typelist usecase = Some r"
    by (auto simp: startscan_def Let_def split: option.splits)
qed

section \<open>Resolution of a producer and consumer chain\<close>

lemma select_by_types_chain:
  assumes "A \<noteq> B" "provides stor = []"
      and "py_split CHR '','' (py_replace ''type_'' [] typelist) = [Y]"
  shows "select_by_types
           [(A, \<lparr> provides = [X], consumes = [], group = gA \<rparr>),
            (B, \<lparr> provides = [Y], consumes = [X], group = gB \<rparr>),
            (''sfp__stor_db'', stor)] typelist
         = Some (if X = Y then [A, B] else [B, A])"
proof (cases "X = Y")
  case True
  then show ?thesis
    using assms
    apply (simp add: select_by_types_def Let_def modulesProducing_def eventsToModules_def)
    apply (subst expand.simps)
    apply (simp add: modulesProducing_def eventsToModules_def)
    apply (subst expand.simps)
    apply (simp add: modulesProducing_def eventsToModules_def)
    apply (subst expand.simps)
    apply (simp add: modulesProducing_def eventsToModules_def)
    done
next
  case False
  then show ?thesis
    using assms
    apply (simp add: select_by_types_def Let_def modulesProducing_def eventsToModules_def)
    apply (subst expand.simps)
    apply (simp add: modulesProducing_def eventsToModules_def)
    apply (subst expand.simps)
    apply (simp add: modulesProducing_def eventsToModules_def)
    apply (subst expand.simps)
    apply (simp add: modulesProducing_def eventsToModules_def)
    done
qed

lemma sort_three_swap: "sort [b, a, c] = sort [a, b, c]"
  by auto

lemma finalize_chain:
  assumes "A \<noteq> ''sfp__stor_db''" "B \<noteq> ''sfp__stor_db''"
      and "A \<noteq> ''sfp__stor_stdout''" "B \<noteq> ''sfp__stor_stdout''"
  shows "finalize_modlist (if X = Y then [A, B] else [B, A]) = sort [A, B, ''sfp__stor_db'']"
proof -
  have "''sfp__stor_stdout'' \<notin> set (sort [A, B, ''sfp__stor_db''])"
    using assms by simp
  then have r: "remove1 ''sfp__stor_stdout'' (sort [A, B, ''sfp__stor_db'']) = sort [A, B, ''sfp__stor_db'']"
    by (rule remove1_idem)
  have "sort [B, A, ''sfp__stor_db''] = sort [A, B, ''sfp__stor_db'']"
    by (rule sort_three_swap)
  then show ?thesis
    using assms r by (simp add: finalize_modlist_eq del: sort_key_simps)
qed

text \<open>
  Claim C6. The registry holds module \<open>A\<close> (produces \<open>X\<close>, consumes nothing), module
  \<open>B\<close> (consumes \<open>X\<close>, produces \<open>Y\<close>) and the storage module, which produces
  nothing. A scan request for the output type \<open>Y\<close>, with no explicit module list,
  launches exactly the modules \<open>A\<close>, \<open>B\<close> and \<^verbatim>\<open>sfp__stor_db\<close>, each once.
\<close>

theorem chain_resolution_selects_exactly:
  assumes names: "A \<noteq> B" "A \<noteq> ''sfp__stor_db''" "B \<noteq> ''sfp__stor_db''"
                 "A \<noteq> ''sfp__stor_stdout''" "B \<noteq> ''sfp__stor_stdout''"
      and reg: "reg = [(A, \<lparr> provides = [X], consumes = [], group = gA \<rparr>),
                       (B, \<lparr> provides = [Y], consumes = [X], group = gB \<rparr>),
                       (''sfp__stor_db'', stor)]"
               "provides stor = []"
      and req: "typelist \<noteq> []" "py_split CHR '','' (py_replace ''type_'' [] typelist) = [Y]"
      and valid: "clean_item scanname \<noteq> []" "clean_item scantarget \<noteq> []"
                 "tt (clean_item scantarget) = Some ty"
  shows "\<exists>l. startscan tt reg aj scanname scantarget [] typelist usecase = Some (Inr l)
             \<and> l_modlist l = sort [A, B, ''sfp__stor_db'']
             \<and> set (l_modlist l) = {A, B, ''sfp__stor_db''}"
proof -
  let ?ml = "if X = Y then [A, B] else [B, A]"
  have sel: "select_by_types reg typelist = Some ?ml"
    unfolding reg(1) by (rule select_by_types_chain [OF names(1) reg(2) req(2)])
  have res: "resolve_modules reg [] typelist usecase = Some ?ml"
    using req(1) sel by (simp add: resolve_modules_def)
  have fin: "finalize_modlist ?ml = sort [A, B, ''sfp__stor_db'']"
    by (rule finalize_chain [OF names(2-5)])
  have "startscan tt reg aj scanname scantarget [] typelist usecase
        = Some (Inr \<lparr> l_scanname = clean_item scanname,
                       l_scantarget =
                         (if ty \<in> set [''HUMAN_NAME'', ''USERNAME'', ''BITCOIN_ADDRESS'']
                          then py_replace [CHR 0x22] [] (clean_item scantarget)
                          else py_lower (clean_item scantarget)),
                       l_targetType = ty,
                       l_modlist = sort [A, B, ''sfp__stor_db''] \<rparr>)"
    using valid req(1) res fin by (simp add: startscan_def Let_def del: sort_key_simps)
  then show ?thesis by (simp del: sort_key_simps)
qed

lemma example_chain_clean: "clean_item ''n'' = ''n'' \<and> clean_item ''example.com'' = ''example.com''"
  by code_simp

lemma example_chain_types: "py_split CHR '','' (py_replace ''type_'' [] ''type_Y'') = [''Y'']"
  by code_simp

theorem chain_resolution_selects_exactly_witness:
  "startscan example_classifier example_registry True ''n'' ''example.com'' [] ''type_Y'' []
   = Some (Inr \<lparr> l_scanname = ''n'', l_scantarget = ''example.com'',
                   l_targetType = ''INTERNET_NAME'',
                   l_modlist = [''sfp__stor_db'', ''sfp_a'', ''sfp_b''] \<rparr>)"
proof -
  have reg: "example_registry =
      [(''sfp_a'', \<lparr> provides = [''X''], consumes = [], group = [''Passive''] \<rparr>),
       (''sfp_b'', \<lparr> provides = [''Y''], consumes = [''X''], group = [''Passive''] \<rparr>),
       (''sfp__stor_db'', \<lparr> provides = [], consumes = [''*''], group = [] \<rparr>)]"
    by (simp add: example_registry_def)
  have ty: "example_classifier (clean_item ''example.com'') = Some ''INTERNET_NAME''"
    by (simp add: example_classifier_def)
  have cl: "clean_item ''n'' \<noteq> []" "clean_item ''example.com'' \<noteq> []"
    using example_chain_clean by simp_all
  from chain_resolution_selects_exactly [of "''sfp_a''" "''sfp_b''" example_registry "''X''" "[''Passive'']" "''Y''"
      "[''Passive'']" "\<lparr> provides = [], consumes = [''*''], group = [] \<rparr>" "''type_Y''" "''n''" "''example.com''"
      example_classifier "''INTERNET_NAME''" True "[]", OF _ _ _ _ _ reg _ _ example_chain_types cl ty]
  obtain l where l: "startscan example_classifier example_registry True ''n'' ''example.com'' [] ''type_Y'' [] = Some (Inr l)"
     "l_modlist l = sort [''sfp_a'', ''sfp_b'', ''sfp__stor_db'']"
    by auto
  have "startscan example_classifier example_registry True ''n'' ''example.com'' [] ''type_Y'' [] 
     = Some (Inr \<lparr> l_scanname = ''n'', l_scantarget = ''example.com'',
                   l_targetType = ''INTERNET_NAME'',
                   l_modlist = l_modlist l \<rparr>)"
    using l(1) example_chain_clean ty 
    by (auto simp: startscan_def Let_def py_lower_def lower_char_def split: option.splits if_splits)
  moreover have "sort [''sfp_a'', ''sfp_b'', ''sfp__stor_db''] = [''sfp__stor_db'', ''sfp_a'', ''sfp_b'']"
    by code_simp
  ultimately show ?thesis using l(2) by simp
qed

section \<open>The closure of the children\<close>

lemma children_closure_mono: "set acc \<subseteq> set (children_closure d sid frontier acc)"
proof (induction d sid frontier acc rule: children_closure.induct)
  case (1 d sid frontier acc)
  let ?new = "remdups (filter (\<lambda>h. h \<notin> set acc) (scanElementChildrenDirect d sid frontier))"
  show ?case
  proof (cases "?new = []")
    case True
    then show ?thesis by (subst children_closure.simps) (simp add: Let_def)
  next
    case False
    from "1" [OF refl False] have "set (acc @ ?new) \<subseteq> set (children_closure d sid ?new (acc @ ?new))" .
    moreover have "children_closure d sid frontier acc = children_closure d sid ?new (acc @ ?new)"
      using False by (subst children_closure.simps) (simp add: Let_def)
    ultimately show ?thesis by auto
  qed
qed

lemma children_direct_mono:
  "set F \<subseteq> set G \<Longrightarrow> set (scanElementChildrenDirect d sid F) \<subseteq> set (scanElementChildrenDirect d sid G)"
  by (auto simp: scanElementChildrenDirect_def)

lemma children_closure_closed:
  assumes "\<forall>h \<in> set acc - set frontier. set (scanElementChildrenDirect d sid [h]) \<subseteq> set acc"
  shows "set (scanElementChildrenDirect d sid frontier) \<subseteq> set (children_closure d sid frontier acc)
         \<and> (\<forall>h \<in> set (children_closure d sid frontier acc).
               set (scanElementChildrenDirect d sid [h]) \<subseteq> set (children_closure d sid frontier acc))"
  using assms
proof (induction d sid frontier acc rule: children_closure.induct)
  case (1 d sid frontier acc)
  let ?new = "remdups (filter (\<lambda>h. h \<notin> set acc) (scanElementChildrenDirect d sid frontier))"
  have direct: "set (scanElementChildrenDirect d sid frontier) \<subseteq> set acc \<union> set ?new"
    by auto
  have front: "\<And>h. h \<in> set frontier \<Longrightarrow>
      set (scanElementChildrenDirect d sid [h]) \<subseteq> set (scanElementChildrenDirect d sid frontier)"
    by (rule children_direct_mono) simp
  show ?case
  proof (cases "?new = []")
    case True
    then have eq: "children_closure d sid frontier acc = acc"
      by (subst children_closure.simps) (simp add: Let_def)
    have "set (scanElementChildrenDirect d sid frontier) \<subseteq> set acc"
      using direct True by simp
    moreover have "\<forall>h \<in> set acc. set (scanElementChildrenDirect d sid [h]) \<subseteq> set acc"
    proof
      fix h assume h: "h \<in> set acc"
      show "set (scanElementChildrenDirect d sid [h]) \<subseteq> set acc"
      proof (cases "h \<in> set frontier")
        case True
        with front [of h] \<open>set (scanElementChildrenDirect d sid frontier) \<subseteq> set acc\<close>
        show ?thesis by blast
      next
        case False
        with h "1.prems" show ?thesis by blast
      qed
    qed
    ultimately show ?thesis unfolding eq by blast
  next
    case False
    then have eq: "children_closure d sid frontier acc = children_closure d sid ?new (acc @ ?new)"
      by (subst children_closure.simps) (simp add: Let_def)
    have inv: "\<forall>h \<in> set (acc @ ?new) - set ?new.
                 set (scanElementChildrenDirect d sid [h]) \<subseteq> set (acc @ ?new)"
    proof
      fix h assume "h \<in> set (acc @ ?new) - set ?new"
      then have h: "h \<in> set acc" by auto
      show "set (scanElementChildrenDirect d sid [h]) \<subseteq> set (acc @ ?new)"
      proof (cases "h \<in> set frontier")
        case True
        with front [of h] direct show ?thesis by auto
      next
        case False
        with h "1.prems" have "set (scanElementChildrenDirect d sid [h]) \<subseteq> set acc" by blast
        then show ?thesis by auto
      qed
    qed
    from "1.IH" [OF refl False inv]
    have ih: "\<forall>h \<in> set (children_closure d sid ?new (acc @ ?new)).
               set (scanElementChildrenDirect d sid [h]) \<subseteq> set (children_closure d sid ?new (acc @ ?new))"
      by blast
    have "set (acc @ ?new) \<subseteq> set (children_closure d sid ?new (acc @ ?new))"
      by (rule children_closure_mono)
    with direct have "set (scanElementChildrenDirect d sid frontier)
                      \<subseteq> set (children_closure d sid ?new (acc @ ?new))"
      by auto
    with ih show ?thesis unfolding eq by blast
  qed
qed

lemma descendant_in_children_all:
  assumes "descendant d sid ids h"
  shows "h \<in> set (scanElementChildrenAll d sid ids)"
  using assms
proof (induction rule: descendant.induct)
  case (child r)
  have "set (scanElementChildrenDirect d sid ids) \<subseteq> set (scanElementChildrenAll d sid ids)"
    using children_closure_closed [of "[]" ids d sid] by (simp add: scanElementChildrenAll_def)
  moreover have "r_hash r \<in> set (scanElementChildrenDirect d sid ids)"
    using child by (auto simp: scanElementChildrenDirect_def)
  ultimately show ?case by blast
next
  case (step h r)
  have "set (scanElementChildrenDirect d sid [h]) \<subseteq> set (scanElementChildrenAll d sid ids)"
    using children_closure_closed [of "[]" ids d sid] step.IH
    by (simp add: scanElementChildrenAll_def)
  moreover have "r_hash r \<in> set (scanElementChildrenDirect d sid [h])"
    using step by (auto simp: scanElementChildrenDirect_def)
  ultimately show ?case by blast
qed

lemma children_closure_sound:
  assumes "\<forall>h \<in> set acc. descendant d sid ids h"
      and "\<forall>h \<in> set frontier. h \<in> set ids \<or> descendant d sid ids h"
  shows "\<forall>h \<in> set (children_closure d sid frontier acc). descendant d sid ids h"
  using assms
proof (induction d sid frontier acc rule: children_closure.induct)
  case (1 d sid frontier acc)
  let ?new = "remdups (filter (\<lambda>h. h \<notin> set acc) (scanElementChildrenDirect d sid frontier))"
  show ?case
  proof (cases "?new = []")
    case True
    then have "children_closure d sid frontier acc = acc"
      by (subst children_closure.simps) (simp add: Let_def)
    with "1.prems" show ?thesis by simp
  next
    case False
    then have eq: "children_closure d sid frontier acc = children_closure d sid ?new (acc @ ?new)"
      by (subst children_closure.simps) (simp add: Let_def)
    have new: "\<forall>h \<in> set ?new. descendant d sid ids h"
    proof
      fix h assume "h \<in> set ?new"
      then obtain r where r: "r \<in> set (scan_results d)" "r_scan r = sid"
          "r_source r \<in> set frontier" "h = r_hash r"
        by (auto simp: scanElementChildrenDirect_def)
      from "1.prems"(2) r(3) have "r_source r \<in> set ids \<or> descendant d sid ids (r_source r)"
        by blast
      then show "descendant d sid ids h"
        using r by (auto intro: descendant.child descendant.step)
    qed
    have "\<forall>h \<in> set (children_closure d sid ?new (acc @ ?new)). descendant d sid ids h"
      using "1.prems"(1) new by (intro "1.IH" [OF refl False]) auto
    then show ?thesis unfolding eq .
  qed
qed

lemma children_all_iff: "h \<in> set (scanElementChildrenAll d sid ids) \<longleftrightarrow> descendant d sid ids h"
proof
  assume "h \<in> set (scanElementChildrenAll d sid ids)"
  moreover have "\<forall>h \<in> set (children_closure d sid ids []). descendant d sid ids h"
    by (rule children_closure_sound) auto
  ultimately show "descendant d sid ids h" by (simp add: scanElementChildrenAll_def)
next
  assume "descendant d sid ids h"
  then show "h \<in> set (scanElementChildrenAll d sid ids)" by (rule descendant_in_children_all)
qed


section \<open>False-positive updates\<close>

lemma same_links_row:
  assumes "map (\<lambda>r. (r_scan r, r_hash r, r_source r)) (scan_results d')
           = map (\<lambda>r. (r_scan r, r_hash r, r_source r)) (scan_results d)"
      and "r \<in> set (scan_results d)"
  obtains r' where "r' \<in> set (scan_results d')" "r_scan r' = r_scan r"
      "r_hash r' = r_hash r" "r_source r' = r_source r"
proof -
  have "(r_scan r, r_hash r, r_source r)
        \<in> (\<lambda>r. (r_scan r, r_hash r, r_source r)) ` set (scan_results d)"
    using assms(2) by (rule imageI)
  also have "\<dots> = (\<lambda>r. (r_scan r, r_hash r, r_source r)) ` set (scan_results d')"
    using arg_cong [OF assms(1), of set] by (simp only: set_map)
  finally obtain r' where "r' \<in> set (scan_results d')"
      "(r_scan r, r_hash r, r_source r) = (r_scan r', r_hash r', r_source r')"
    by (rule imageE)
  then show ?thesis by (intro that [of r']) simp_all
qed

lemma descendant_same_links:
  assumes "map (\<lambda>r. (r_scan r, r_hash r, r_source r)) (scan_results d')
           = map (\<lambda>r. (r_scan r, r_hash r, r_source r)) (scan_results d)"
      and "descendant d sid ids h"
  shows "descendant d' sid ids h"
  using assms(2)
proof (induction rule: descendant.induct)
  case (child r)
  from same_links_row [OF assms(1) child(1)] obtain r' where
    r': "r' \<in> set (scan_results d')" "r_scan r' = r_scan r"
        "r_hash r' = r_hash r" "r_source r' = r_source r"
    by blast
  have "descendant d' sid ids (r_hash r')"
    using r' child by (intro descendant.child) simp_all
  then show ?case by (simp only: r'(3))
next
  case (step h r)
  from same_links_row [OF assms(1) step(2)] obtain r' where
    r': "r' \<in> set (scan_results d')" "r_scan r' = r_scan r"
        "r_hash r' = r_hash r" "r_source r' = r_source r"
    by blast
  have "descendant d' sid ids (r_hash r')"
    using r' step by (intro descendant.step [of d' sid ids h]) simp_all
  then show ?case by (simp only: r'(3))
qed

lemma update_fp_links:
  "map (\<lambda>r. (r_scan r, r_hash r, r_source r)) (scan_results (snd (scanResultsUpdateFP d sid hashes fp)))
   = map (\<lambda>r. (r_scan r, r_hash r, r_source r)) (scan_results d)"
  by (simp add: scanResultsUpdateFP_def comp_def)

lemma update_fp_flagged:
  assumes "r \<in> set (scan_results (snd (scanResultsUpdateFP d sid hashes fp)))"
      and "r_scan r = sid" "r_hash r \<in> set hashes"
  shows "r_fp r = fp"
proof -
  from assms(1) obtain r0 where r0: "r0 \<in> set (scan_results d)"
      "r = (if r_scan r0 = sid \<and> r_hash r0 \<in> set hashes then r0\<lparr> r_fp := fp \<rparr> else r0)"
    by (auto simp: scanResultsUpdateFP_def)
  show ?thesis
  proof (cases "r_scan r0 = sid \<and> r_hash r0 \<in> set hashes")
    case True
    with r0(2) show ?thesis by simp
  next
    case False
    with r0(2) have "r = r0" by simp
    with False assms(2,3) show ?thesis by simp
  qed
qed

lemma resultsetfp_accepted:
  assumes "scanInstanceGet d sid = Some info"
      and "si_status info \<in> set [''ABORTED'', ''FINISHED'', ''ERROR-FAILED'']"
      and "fp = ''1'' \<or> (fp = ''0'' \<and>
             \<not> list_ex (\<lambda>row. r_fp (snd row) = ''1'') (scanElementSourcesDirect d sid ids))"
  shows "resultsetfp d sid (Some ids) fp
         = (Json ''SUCCESS'' [],
            snd (scanResultsUpdateFP d sid (ids @ scanElementChildrenAll d sid ids) fp))"
proof -
  have fin: "\<not> si_status info \<notin> set [''ABORTED'', ''FINISHED'', ''ERROR-FAILED'']"
    using assms(2) by blast
  have flag: "\<not> fp \<notin> set [''0'', ''1'']"
    using assms(3) by auto
  have guard: "\<not> (fp = ''0'' \<and>
      list_ex (\<lambda>row. r_fp (snd row) = ''1'') (scanElementSourcesDirect d sid ids))"
    using assms(3) by auto
  have upd: "fst (scanResultsUpdateFP d sid (ids @ scanElementChildrenAll d sid ids) fp) = True"
    by (simp add: scanResultsUpdateFP_def)
  show ?thesis
    unfolding resultsetfp_def Let_def
    by (simp only: assms(1) fin flag guard upd option.case if_False if_True split_beta)
qed

lemma resultsetfp_parent_flagged:
  assumes "scanInstanceGet d sid = Some info"
      and "si_status info \<in> set [''ABORTED'', ''FINISHED'', ''ERROR-FAILED'']"
      and "c \<in> set (scan_results d)" "r_scan c = sid" "r_hash c \<in> set ids"
      and "p \<in> set (scan_results d)" "r_scan p = sid" "r_hash p = r_source c" "r_fp p = ''1''"
  shows "resultsetfp d sid (Some ids) ''0''
         = (Json ''WARNING''
              (''Cannot unset element '' @ sid @
               '' as False Positive if a parent element is still False Positive.''), d)"
proof -
  have "(c, p) \<in> set (scanElementSourcesDirect d sid ids)"
    using assms(3-8) by (auto simp: scanElementSourcesDirect_def)
  then have "list_ex (\<lambda>row. r_fp (snd row) = ''1'') (scanElementSourcesDirect d sid ids)"
    unfolding list_ex_iff using assms(9) by (intro bexI [of _ "(c, p)"]) simp_all
  then show ?thesis
    using assms(1,2) by (simp add: resultsetfp_def)
qed

text \<open>
  Claim C8. On a finished scan a request with flag 1 succeeds, and afterwards every
  result of the scan that the request names and every descendant of a named result
  carries the flag 1.
\<close>

theorem flagging_cascades_to_descendants:
  assumes "scanInstanceGet d sid = Some info"
      and "si_status info \<in> set [''ABORTED'', ''FINISHED'', ''ERROR-FAILED'']"
  shows "fst (resultsetfp d sid (Some ids) ''1'') = Json ''SUCCESS'' []
         \<and> (\<forall>r \<in> set (scan_results (snd (resultsetfp d sid (Some ids) ''1''))).
               r_scan r = sid \<and>
               (r_hash r \<in> set ids
                \<or> descendant (snd (resultsetfp d sid (Some ids) ''1'')) sid ids (r_hash r))
               \<longrightarrow> r_fp r = ''1'')"
proof -
  let ?all = "ids @ scanElementChildrenAll d sid ids"
  let ?d' = "snd (scanResultsUpdateFP d sid ?all ''1'')"
  have run: "resultsetfp d sid (Some ids) ''1'' = (Json ''SUCCESS'' [], ?d')"
    using assms by (intro resultsetfp_accepted) auto
  have "r_fp r = ''1''"
    if r: "r \<in> set (scan_results ?d')" "r_scan r = sid"
      and h: "r_hash r \<in> set ids \<or> descendant ?d' sid ids (r_hash r)" for r
  proof -
    have "r_hash r \<in> set ?all"
    proof (cases "r_hash r \<in> set ids")
      case True
      then show ?thesis by simp
    next
      case False
      with h have "descendant ?d' sid ids (r_hash r)" by simp
      then have "descendant d sid ids (r_hash r)"
        by (rule descendant_same_links [OF update_fp_links [symmetric]])
      then show ?thesis by (simp add: children_all_iff)
    qed
    with r show ?thesis by (intro update_fp_flagged [of r d sid ?all])
  qed
  then show ?thesis unfolding run by auto
qed


lemma example_flag_run:
  "fst (resultsetfp example_clean_db ''S'' (Some [''g'']) ''1'') = Json ''SUCCESS'' []
   \<and> scan_results (snd (resultsetfp example_clean_db ''S'' (Some [''g'']) ''1'')) =
       [\<lparr> r_scan = ''S'', r_hash = ''ROOT'', r_source = ''ROOT'', r_fp = ''0'' \<rparr>,
        \<lparr> r_scan = ''S'', r_hash = ''g'', r_source = ''ROOT'', r_fp = ''1'' \<rparr>,
        \<lparr> r_scan = ''S'', r_hash = ''p'', r_source = ''g'', r_fp = ''1'' \<rparr>,
        \<lparr> r_scan = ''S'', r_hash = ''c'', r_source = ''p'', r_fp = ''1'' \<rparr>]"
  by code_simp

lemma example_clean_finished:
  "scanInstanceGet example_clean_db ''S''
   = Some \<lparr> si_name = ''scan'', si_target = ''example.com'', si_created = 1,
             si_started = 2, si_ended = 3, si_status = ''FINISHED'' \<rparr>"
  by (simp add: scanInstanceGet_def example_clean_db_def)


theorem flagging_cascades_to_descendants_witness:
  "scanInstanceGet example_clean_db ''S''
   = Some \<lparr> si_name = ''scan'', si_target = ''example.com'', si_created = 1,
             si_started = 2, si_ended = 3, si_status = ''FINISHED'' \<rparr>
   \<and> ''FINISHED'' \<in> set [''ABORTED'', ''FINISHED'', ''ERROR-FAILED'']
   \<and> fst (resultsetfp example_clean_db ''S'' (Some [''g'']) ''1'') = Json ''SUCCESS'' []
   \<and> descendant (snd (resultsetfp example_clean_db ''S'' (Some [''g'']) ''1'')) ''S'' [''g''] ''c''
   \<and> (\<exists>r \<in> set (scan_results (snd (resultsetfp example_clean_db ''S'' (Some [''g'']) ''1''))).
         r_scan r = ''S'' \<and> r_hash r = ''c'' \<and> r_fp r = ''1'')"
proof -
  let ?d' = "snd (resultsetfp example_clean_db ''S'' (Some [''g'']) ''1'')"
  let ?p = "\<lparr> r_scan = ''S'', r_hash = ''p'', r_source = ''g'', r_fp = ''1'' \<rparr>"
  let ?c = "\<lparr> r_scan = ''S'', r_hash = ''c'', r_source = ''p'', r_fp = ''1'' \<rparr>"
  have fin: "si_status \<lparr> si_name = ''scan'', si_target = ''example.com'', si_created = 1,
                si_started = 2, si_ended = 3, si_status = ''FINISHED'' \<rparr>
             \<in> set [''ABORTED'', ''FINISHED'', ''ERROR-FAILED'']"
    by simp
  have rows: "?p \<in> set (scan_results ?d')" "?c \<in> set (scan_results ?d')"
    using example_flag_run by simp_all
  have "descendant ?d' ''S'' [''g''] (r_hash ?p)"
    by (rule descendant.child [where r = ?p]) (simp_all add: rows)
  then have "descendant ?d' ''S'' [''g''] (r_hash ?c)"
    by (rule descendant.step [where r = ?c]) (simp_all add: rows)
  then have desc: "descendant ?d' ''S'' [''g''] ''c''" by simp
  from flagging_cascades_to_descendants [OF example_clean_finished fin, of "[''g'']"]
  have ok: "fst (resultsetfp example_clean_db ''S'' (Some [''g'']) ''1'') = Json ''SUCCESS'' []"
    and all: "\<forall>r \<in> set (scan_results ?d'). r_scan r = ''S'' \<and>
                (r_hash r \<in> set [''g''] \<or> descendant ?d' ''S'' [''g''] (r_hash r))
                \<longrightarrow> r_fp r = ''1''"
    by blast+
  from all rows(2) desc have "r_fp ?c = ''1''" by (elim ballE [of _ _ ?c]) simp_all
  with rows(2) have "\<exists>r \<in> set (scan_results ?d'). r_scan r = ''S'' \<and> r_hash r = ''c'' \<and> r_fp r = ''1''"
    by (intro bexI [of _ ?c]) simp_all
  with ok desc example_clean_finished show ?thesis by simp
qed

section \<open>The stores the handler produces\<close>

text \<open>
  Two properties hold of every such store: the IDs stay unique within a scan, and every
  child of a flagged result is flagged.
\<close>

lemma resultsetfp_cases:
  "snd (resultsetfp d sid resultids fp) = d
   \<or> (\<exists>ids. resultids = Some ids \<and> (fp = ''1'' \<or> fp = ''0'')
         \<and> \<not> (fp = ''0'' \<and> list_ex (\<lambda>row. r_fp (snd row) = ''1'') (scanElementSourcesDirect d sid ids))
         \<and> snd (resultsetfp d sid resultids fp)
           = snd (scanResultsUpdateFP d sid (ids @ scanElementChildrenAll d sid ids) fp))"
proof (cases "fp \<in> set [''0'', ''1'']")
  case False
  then show ?thesis by (simp add: resultsetfp_def)
next
  case flag: True
  show ?thesis
  proof (cases resultids)
    case None
    then show ?thesis by (simp add: resultsetfp_def)
  next
    case (Some ids)
    show ?thesis
    proof (cases "scanInstanceGet d sid")
      case None
      with Some show ?thesis by (simp add: resultsetfp_def)
    next
      case info: (Some info)
      show ?thesis
      proof (cases "si_status info \<in> set [''ABORTED'', ''FINISHED'', ''ERROR-FAILED'']")
        case False
        with Some info show ?thesis by (simp add: resultsetfp_def)
      next
        case fin: True
        show ?thesis
        proof (cases "fp = ''0'' \<and>
            list_ex (\<lambda>row. r_fp (snd row) = ''1'') (scanElementSourcesDirect d sid ids)")
          case True
          with Some info fin show ?thesis by (simp add: resultsetfp_def)
        next
          case False
          with flag have "fp = ''1'' \<or> (fp = ''0'' \<and>
             \<not> list_ex (\<lambda>row. r_fp (snd row) = ''1'') (scanElementSourcesDirect d sid ids))"
            by auto
          from resultsetfp_accepted [OF info fin this]
          have "snd (resultsetfp d sid (Some ids) fp)
                = snd (scanResultsUpdateFP d sid (ids @ scanElementChildrenAll d sid ids) fp)"
            by simp
          with Some False flag show ?thesis by auto
        qed
      qed
    qed
  qed
qed

lemma update_fp_rows:
  "scan_results (snd (scanResultsUpdateFP d sid hashes fp))
   = map (\<lambda>r. if r_scan r = sid \<and> r_hash r \<in> set hashes then r\<lparr> r_fp := fp \<rparr> else r)
         (scan_results d)"
  by (simp add: scanResultsUpdateFP_def)

lemma all_ids_closed:
  assumes "c \<in> set (scan_results d)" "r_scan c = sid"
      and "r_source c \<in> set (ids @ scanElementChildrenAll d sid ids)"
  shows "r_hash c \<in> set (ids @ scanElementChildrenAll d sid ids)"
proof -
  have "descendant d sid ids (r_hash c)"
  proof (cases "r_source c \<in> set ids")
    case True
    with assms(1,2) show ?thesis by (rule descendant.child)
  next
    case False
    with assms(3) have "descendant d sid ids (r_source c)" by (simp add: children_all_iff)
    from this assms(1,2) refl show ?thesis by (rule descendant.step)
  qed
  then show ?thesis by (simp add: children_all_iff)
qed

lemma descendant_row:
  assumes "descendant d sid ids h"
  shows "\<exists>c \<in> set (scan_results d). r_scan c = sid \<and> r_hash c = h
           \<and> r_source c \<in> set (ids @ scanElementChildrenAll d sid ids)"
  using assms
proof (induction rule: descendant.induct)
  case (child r)
  then show ?case by (intro bexI [of _ r]) simp_all
next
  case (step h r)
  from step(1) have "h \<in> set (scanElementChildrenAll d sid ids)" by (simp add: children_all_iff)
  with step(2,3,4) show ?case by (intro bexI [of _ r]) simp_all
qed

lemma unique_row:
  assumes "distinct (map (\<lambda>r. (r_scan r, r_hash r)) (scan_results d))"
      and "c \<in> set (scan_results d)" "c' \<in> set (scan_results d)"
      and "r_scan c = r_scan c'" "r_hash c = r_hash c'"
  shows "c = c'"
proof -
  from assms(1) have "inj_on (\<lambda>r. (r_scan r, r_hash r)) (set (scan_results d))"
    by (simp add: distinct_map)
  moreover have "(r_scan c, r_hash c) = (r_scan c', r_hash c')"
    by (simp add: assms(4,5))
  ultimately show ?thesis
    using assms(2,3) by (rule inj_onD)
qed

lemma update_keeps_closed:
  assumes uniq: "distinct (map (\<lambda>r. (r_scan r, r_hash r)) (scan_results d))"
      and closed: "\<forall>r \<in> set (scan_results d). \<forall>c \<in> set (scan_results d).
             r_scan c = r_scan r \<and> r_source c = r_hash r \<and> r_fp r = ''1'' \<longrightarrow> r_fp c = ''1''"
      and flag: "fp = ''1'' \<or> fp = ''0''"
      and guard: "\<not> (fp = ''0'' \<and>
             list_ex (\<lambda>row. r_fp (snd row) = ''1'') (scanElementSourcesDirect d sid ids))"
      and d': "d' = snd (scanResultsUpdateFP d sid (ids @ scanElementChildrenAll d sid ids) fp)"
  shows "\<forall>r \<in> set (scan_results d'). \<forall>c \<in> set (scan_results d').
             r_scan c = r_scan r \<and> r_source c = r_hash r \<and> r_fp r = ''1'' \<longrightarrow> r_fp c = ''1''"
proof (intro ballI impI)
  let ?H = "set (ids @ scanElementChildrenAll d sid ids)"
  define upd where "upd x \<longleftrightarrow> r_scan x = sid \<and> r_hash x \<in> ?H" for x :: result_row
  define f where "f x = (if upd x then x\<lparr> r_fp := fp \<rparr> else x)" for x :: result_row
  have f_link: "r_scan (f x) = r_scan x" "r_hash (f x) = r_hash x" "r_source (f x) = r_source x" for x
    by (simp_all add: f_def)
  have f_upd: "upd x \<Longrightarrow> r_fp (f x) = fp" and f_not: "\<not> upd x \<Longrightarrow> f x = x" for x
    by (simp_all add: f_def)
  have rows': "scan_results d' = map f (scan_results d)"
    unfolding d' update_fp_rows f_def upd_def by simp
  fix r' c'
  assume r': "r' \<in> set (scan_results d')" and c': "c' \<in> set (scan_results d')"
     and link: "r_scan c' = r_scan r' \<and> r_source c' = r_hash r' \<and> r_fp r' = ''1''"
  from r' obtain r where r: "r \<in> set (scan_results d)" "r' = f r"
    unfolding rows' by auto
  from c' obtain c where c: "c \<in> set (scan_results d)" "c' = f c"
    unfolding rows' by auto
  have same: "r_scan c = r_scan r" "r_source c = r_hash r" and fr: "r_fp (f r) = ''1''"
    using link unfolding r(2) c(2) f_link by simp_all
  show "r_fp c' = ''1''"
  proof (cases "upd c")
    case cupd: True
    then have c_in: "r_scan c = sid" "r_hash c \<in> ?H" by (simp_all add: upd_def)
    show ?thesis
    proof (cases "fp = ''1''")
      case True
      with f_upd [OF cupd] c(2) show ?thesis by simp
    next
      case False
      with flag have zero: "fp = ''0''" by simp
      have rnot: "\<not> upd r"
      proof
        assume "upd r"
        from f_upd [OF this] zero fr show False by simp
      qed
      with f_not fr have rfl: "r_fp r = ''1''" by simp
      have scan_r: "r_scan r = sid" using c_in(1) same(1) by simp
      have "r_hash c \<notin> set ids"
      proof
        assume "r_hash c \<in> set ids"
        with c(1) c_in(1) r(1) scan_r same(2) have "(c, r) \<in> set (scanElementSourcesDirect d sid ids)"
          by (auto simp: scanElementSourcesDirect_def)
        then have "list_ex (\<lambda>row. r_fp (snd row) = ''1'') (scanElementSourcesDirect d sid ids)"
          unfolding list_ex_iff using rfl by (intro bexI [of _ "(c, r)"]) simp_all
        with guard zero show False by simp
      qed
      with c_in(2) have "descendant d sid ids (r_hash c)" by (simp add: children_all_iff)
      from descendant_row [OF this] obtain c2 where
        c2: "c2 \<in> set (scan_results d)" "r_scan c2 = sid" "r_hash c2 = r_hash c" "r_source c2 \<in> ?H"
        by blast
      have "c2 = c"
        using uniq c2(1) c(1) by (rule unique_row) (simp_all add: c2 c_in)
      with c2(4) same(2) have "r_hash r \<in> ?H" by simp
      with scan_r rnot show ?thesis by (simp add: upd_def)
    qed
  next
    case cnot: False
    with c(2) f_not have cc: "c' = c" by simp
    show ?thesis
    proof (cases "upd r")
      case True
      then have "r_scan r = sid" "r_hash r \<in> ?H" by (simp_all add: upd_def)
      with same have sc: "r_scan c = sid" and "r_source c \<in> ?H" by simp_all
      with c(1) have "r_hash c \<in> ?H" by (intro all_ids_closed)
      with sc cnot show ?thesis by (simp add: upd_def)
    next
      case False
      with f_not fr have "r_fp r = ''1''" by simp
      with closed r(1) c(1) same have "r_fp c = ''1''" by blast
      with cc show ?thesis by simp
    qed
  qed
qed

lemma update_keeps_unique:
  assumes "distinct (map (\<lambda>r. (r_scan r, r_hash r)) (scan_results d))"
  shows "distinct (map (\<lambda>r. (r_scan r, r_hash r))
           (scan_results (snd (scanResultsUpdateFP d sid hashes fp))))"
proof -
  have "map (\<lambda>r. (r_scan r, r_hash r)) (scan_results (snd (scanResultsUpdateFP d sid hashes fp)))
        = map (\<lambda>r. (r_scan r, r_hash r)) (scan_results d)"
    by (simp add: scanResultsUpdateFP_def comp_def)
  with assms show ?thesis by simp
qed

lemma reachable_invariant:
  assumes "reachable d"
  shows "distinct (map (\<lambda>r. (r_scan r, r_hash r)) (scan_results d))
         \<and> (\<forall>r \<in> set (scan_results d). \<forall>c \<in> set (scan_results d).
               r_scan c = r_scan r \<and> r_source c = r_hash r \<and> r_fp r = ''1'' \<longrightarrow> r_fp c = ''1'')"
  using assms
proof (induction rule: reachable.induct)
  case (fresh d)
  have zero: "r_fp r = ''0''" if "r \<in> set (scan_results d)" for r
    using fresh(1) that by (simp add: list_all_iff)
  show ?case
  proof (intro conjI ballI impI)
    show "distinct (map (\<lambda>r. (r_scan r, r_hash r)) (scan_results d))" by (rule fresh(2))
  next
    fix r c
    assume "r \<in> set (scan_results d)"
       and "r_scan c = r_scan r \<and> r_source c = r_hash r \<and> r_fp r = ''1''"
    with zero [of r] have False by simp
    then show "r_fp c = ''1''" ..
  qed
next
  case (request d sid resultids fp)
  from resultsetfp_cases [of d sid resultids fp] show ?case
  proof (rule disjE)
    assume same: "snd (resultsetfp d sid resultids fp) = d"
    show ?thesis unfolding same by (rule request.IH)
  next
    assume "\<exists>ids. resultids = Some ids \<and> (fp = ''1'' \<or> fp = ''0'')
         \<and> \<not> (fp = ''0'' \<and> list_ex (\<lambda>row. r_fp (snd row) = ''1'') (scanElementSourcesDirect d sid ids))
         \<and> snd (resultsetfp d sid resultids fp)
           = snd (scanResultsUpdateFP d sid (ids @ scanElementChildrenAll d sid ids) fp)"
    then obtain ids where flag: "fp = ''1'' \<or> fp = ''0''"
       and guard: "\<not> (fp = ''0'' \<and>
             list_ex (\<lambda>row. r_fp (snd row) = ''1'') (scanElementSourcesDirect d sid ids))"
       and d': "snd (resultsetfp d sid resultids fp)
                = snd (scanResultsUpdateFP d sid (ids @ scanElementChildrenAll d sid ids) fp)"
      by (elim exE conjE)
    have uniq: "distinct (map (\<lambda>r. (r_scan r, r_hash r)) (scan_results d))"
      using request.IH by (rule conjunct1)
    have closed: "\<forall>r \<in> set (scan_results d). \<forall>c \<in> set (scan_results d).
             r_scan c = r_scan r \<and> r_source c = r_hash r \<and> r_fp r = ''1'' \<longrightarrow> r_fp c = ''1''"
      using request.IH by (rule conjunct2)
    have "distinct (map (\<lambda>r. (r_scan r, r_hash r)) (scan_results (snd (resultsetfp d sid resultids fp))))"
      unfolding d' using uniq by (rule update_keeps_unique)
    moreover have "\<forall>r \<in> set (scan_results (snd (resultsetfp d sid resultids fp))).
           \<forall>c \<in> set (scan_results (snd (resultsetfp d sid resultids fp))).
             r_scan c = r_scan r \<and> r_source c = r_hash r \<and> r_fp r = ''1'' \<longrightarrow> r_fp c = ''1''"
      using uniq closed flag guard d' by (rule update_keeps_closed)
    ultimately show ?thesis by (rule conjI)
  qed
qed


lemma resultsetfp_keeps_instances:
  "scan_instances (snd (resultsetfp d sid resultids fp)) = scan_instances d"
  using resultsetfp_cases [of d sid resultids fp]
  by (auto simp: scanResultsUpdateFP_def)

section \<open>Unflagging below a flagged result\<close>

text \<open>
  In a store where every child of a flagged result is flagged, which is what flagging
  with the cascade produces, a flagged ancestor implies a flagged direct parent, so
  that the check of the direct parents rejects the request.
\<close>

lemma flagged_ancestor_flagged_parent:
  assumes closed: "\<forall>r \<in> set (scan_results d). \<forall>c \<in> set (scan_results d).
             r_scan r = sid \<and> r_scan c = sid \<and> r_source c = r_hash r \<and> r_fp r = ''1''
             \<longrightarrow> r_fp c = ''1''"
      and anc: "a \<in> set (scan_results d)" "r_scan a = sid" "r_fp a = ''1''"
      and desc: "descendant d sid [r_hash a] h"
  shows "\<exists>c \<in> set (scan_results d). \<exists>p \<in> set (scan_results d).
           r_scan c = sid \<and> r_hash c = h \<and> r_fp c = ''1'' \<and>
           r_scan p = sid \<and> r_hash p = r_source c \<and> r_fp p = ''1''"
  using desc
proof (induction rule: descendant.induct)
  case (child r)
  then have src: "r_source r = r_hash a" by simp
  have "r_fp r = ''1''"
    using closed [rule_format, OF anc(1) child(1)] anc(2,3) child(2) src by simp
  with child(1,2) anc src show ?case
    by (intro bexI [of _ r] bexI [of _ a]) simp_all
next
  case (step h r)
  from step.IH obtain c where c: "c \<in> set (scan_results d)" "r_scan c = sid"
      "r_hash c = h" "r_fp c = ''1''"
    by blast
  have src: "r_source r = r_hash c" using step(4) c(3) by simp
  have "r_fp r = ''1''"
    using closed [rule_format, OF c(1) step(2)] c(2,4) step(3) src by simp
  with step(2,3) c src show ?case
    by (intro bexI [of _ r] bexI [of _ c]) simp_all
qed

lemma unflag_rejected_when_flags_closed:
  assumes "scanInstanceGet d sid = Some info"
      and "si_status info \<in> set [''ABORTED'', ''FINISHED'', ''ERROR-FAILED'']"
      and closed: "\<forall>r \<in> set (scan_results d). \<forall>c \<in> set (scan_results d).
             r_scan r = sid \<and> r_scan c = sid \<and> r_source c = r_hash r \<and> r_fp r = ''1''
             \<longrightarrow> r_fp c = ''1''"
      and anc: "a \<in> set (scan_results d)" "r_scan a = sid" "r_fp a = ''1''"
      and desc: "descendant d sid [r_hash a] h" "h \<in> set ids"
  shows "resultsetfp d sid (Some ids) ''0''
         = (Json ''WARNING''
              (''Cannot unset element '' @ sid @
               '' as False Positive if a parent element is still False Positive.''), d)"
proof -
  from flagged_ancestor_flagged_parent [OF closed anc desc(1)]
  obtain c p where cp: "c \<in> set (scan_results d)" "p \<in> set (scan_results d)"
      "r_scan c = sid" "r_hash c = h" "r_scan p = sid" "r_hash p = r_source c" "r_fp p = ''1''"
    by (elim bexE conjE)
  have "r_hash c \<in> set ids" using cp(4) desc(2) by simp
  from assms(1,2) cp(1,3) this cp(2,5,6,7) show ?thesis
    by (rule resultsetfp_parent_flagged)
qed

text \<open>
  Claim C1. In every store the handler can find, on a finished scan, a request with
  flag 0 is rejected when any ancestor of any of the named results is still flagged:
  the answer is the warning, and the store is left as it was.
\<close>

theorem unflag_rejected_below_flagged_ancestor:
  assumes "reachable d"
      and "scanInstanceGet d sid = Some info"
      and "si_status info \<in> set [''ABORTED'', ''FINISHED'', ''ERROR-FAILED'']"
      and "a \<in> set (scan_results d)" "r_scan a = sid" "r_fp a = ''1''"
      and "descendant d sid [r_hash a] h" "h \<in> set ids"
  shows "resultsetfp d sid (Some ids) ''0''
         = (Json ''WARNING''
              (''Cannot unset element '' @ sid @
               '' as False Positive if a parent element is still False Positive.''), d)"
proof -
  have all: "\<forall>r \<in> set (scan_results d). \<forall>c \<in> set (scan_results d).
               r_scan c = r_scan r \<and> r_source c = r_hash r \<and> r_fp r = ''1'' \<longrightarrow> r_fp c = ''1''"
    using reachable_invariant [OF assms(1)] by (rule conjunct2)
  have closed: "\<forall>r \<in> set (scan_results d). \<forall>c \<in> set (scan_results d).
             r_scan r = sid \<and> r_scan c = sid \<and> r_source c = r_hash r \<and> r_fp r = ''1''
             \<longrightarrow> r_fp c = ''1''"
  proof (intro ballI impI)
    fix r c
    assume "r \<in> set (scan_results d)" "c \<in> set (scan_results d)"
       and "r_scan r = sid \<and> r_scan c = sid \<and> r_source c = r_hash r \<and> r_fp r = ''1''"
    then show "r_fp c = ''1''"
      using all [rule_format, of r c] by simp
  qed
  from assms(2,3) closed assms(4-8) show ?thesis
    by (rule unflag_rejected_when_flags_closed)
qed

lemma example_clean_fresh: "reachable example_clean_db"
  by (rule reachable.fresh) (simp_all add: example_clean_db_def)

theorem unflag_rejected_below_flagged_ancestor_witness:
  "reachable (snd (resultsetfp example_clean_db ''S'' (Some [''g'']) ''1''))
   \<and> \<lparr> r_scan = ''S'', r_hash = ''g'', r_source = ''ROOT'', r_fp = ''1'' \<rparr>
       \<in> set (scan_results (snd (resultsetfp example_clean_db ''S'' (Some [''g'']) ''1'')))
   \<and> descendant (snd (resultsetfp example_clean_db ''S'' (Some [''g'']) ''1'')) ''S'' [''g''] ''c''
   \<and> resultsetfp (snd (resultsetfp example_clean_db ''S'' (Some [''g'']) ''1'')) ''S'' (Some [''c'']) ''0''
     = (Json ''WARNING''
          ''Cannot unset element S as False Positive if a parent element is still False Positive.'',
        snd (resultsetfp example_clean_db ''S'' (Some [''g'']) ''1''))"
proof -
  let ?d = "snd (resultsetfp example_clean_db ''S'' (Some [''g'']) ''1'')"
  let ?g = "\<lparr> r_scan = ''S'', r_hash = ''g'', r_source = ''ROOT'', r_fp = ''1'' \<rparr>"
  let ?p = "\<lparr> r_scan = ''S'', r_hash = ''p'', r_source = ''g'', r_fp = ''1'' \<rparr>"
  let ?c = "\<lparr> r_scan = ''S'', r_hash = ''c'', r_source = ''p'', r_fp = ''1'' \<rparr>"
  have reach: "reachable ?d"
    using example_clean_fresh by (rule reachable.request)
  have inst: "scanInstanceGet ?d ''S''
      = Some \<lparr> si_name = ''scan'', si_target = ''example.com'', si_created = 1,
                si_started = 2, si_ended = 3, si_status = ''FINISHED'' \<rparr>"
    using example_clean_finished by (simp add: scanInstanceGet_def resultsetfp_keeps_instances)
  have fin: "si_status \<lparr> si_name = ''scan'', si_target = ''example.com'', si_created = 1,
                si_started = 2, si_ended = 3, si_status = ''FINISHED'' \<rparr>
             \<in> set [''ABORTED'', ''FINISHED'', ''ERROR-FAILED'']"
    by simp
  have rows: "?g \<in> set (scan_results ?d)" "?p \<in> set (scan_results ?d)" "?c \<in> set (scan_results ?d)"
    using example_flag_run by simp_all
  have "descendant ?d ''S'' [r_hash ?g] (r_hash ?p)"
    by (rule descendant.child [where r = ?p]) (simp_all add: rows)
  then have "descendant ?d ''S'' [r_hash ?g] (r_hash ?c)"
    by (rule descendant.step [where r = ?c]) (simp_all add: rows)
  then have desc: "descendant ?d ''S'' [r_hash ?g] ''c''" by simp
  have "resultsetfp ?d ''S'' (Some [''c'']) ''0''
        = (Json ''WARNING''
             (''Cannot unset element '' @ ''S'' @
              '' as False Positive if a parent element is still False Positive.''), ?d)"
    using reach inst fin rows(1) _ _ desc
    by (rule unflag_rejected_below_flagged_ancestor) simp_all
  moreover have "descendant ?d ''S'' [''g''] ''c''" using desc by simp
  ultimately show ?thesis using reach rows(1) by simp
qed

text \<open>
  The hypothesis on the store is needed. In a store that is not of this kind, where
  \<open>g\<close> is flagged and its child \<open>p\<close> is not, the request to unflag the grandchild
  \<open>c\<close> is carried out, since only the direct parent is looked at.
\<close>

lemma example_fp_db_unflag_run:
  "\<lparr> r_scan = ''S'', r_hash = ''g'', r_source = ''ROOT'', r_fp = ''1'' \<rparr> \<in> set (scan_results example_fp_db)
   \<and> descendant example_fp_db ''S'' [''g''] ''c''
   \<and> fst (resultsetfp example_fp_db ''S'' (Some [''c'']) ''0'') = Json ''SUCCESS'' []
   \<and> scan_results (snd (resultsetfp example_fp_db ''S'' (Some [''c'']) ''0'')) =
       [\<lparr> r_scan = ''S'', r_hash = ''ROOT'', r_source = ''ROOT'', r_fp = ''0'' \<rparr>,
        \<lparr> r_scan = ''S'', r_hash = ''g'', r_source = ''ROOT'', r_fp = ''1'' \<rparr>,
        \<lparr> r_scan = ''S'', r_hash = ''p'', r_source = ''g'', r_fp = ''0'' \<rparr>,
        \<lparr> r_scan = ''S'', r_hash = ''c'', r_source = ''p'', r_fp = ''0'' \<rparr>]"
proof -
  let ?p = "\<lparr> r_scan = ''S'', r_hash = ''p'', r_source = ''g'', r_fp = ''0'' \<rparr>"
  let ?c = "\<lparr> r_scan = ''S'', r_hash = ''c'', r_source = ''p'', r_fp = ''1'' \<rparr>"
  have rows: "?p \<in> set (scan_results example_fp_db)" "?c \<in> set (scan_results example_fp_db)"
    "\<lparr> r_scan = ''S'', r_hash = ''g'', r_source = ''ROOT'', r_fp = ''1'' \<rparr> \<in> set (scan_results example_fp_db)"
    by (simp_all add: example_fp_db_def)
  have "descendant example_fp_db ''S'' [''g''] (r_hash ?p)"
    by (rule descendant.child [where r = ?p]) (simp_all add: rows)
  then have "descendant example_fp_db ''S'' [''g''] (r_hash ?c)"
    by (rule descendant.step [where r = ?c]) (simp_all add: rows)
  then have desc: "descendant example_fp_db ''S'' [''g''] ''c''" by simp
  have run: "fst (resultsetfp example_fp_db ''S'' (Some [''c'']) ''0'') = Json ''SUCCESS'' []
   \<and> scan_results (snd (resultsetfp example_fp_db ''S'' (Some [''c'']) ''0'')) =
       [\<lparr> r_scan = ''S'', r_hash = ''ROOT'', r_source = ''ROOT'', r_fp = ''0'' \<rparr>,
        \<lparr> r_scan = ''S'', r_hash = ''g'', r_source = ''ROOT'', r_fp = ''1'' \<rparr>,
        \<lparr> r_scan = ''S'', r_hash = ''p'', r_source = ''g'', r_fp = ''0'' \<rparr>,
        \<lparr> r_scan = ''S'', r_hash = ''c'', r_source = ''p'', r_fp = ''0'' \<rparr>]"
    by code_simp
  from rows(3) desc run show ?thesis by blast
qed

lemma example_fp_db_unreachable: "\<not> reachable example_fp_db"
proof
  let ?g = "\<lparr> r_scan = ''S'', r_hash = ''g'', r_source = ''ROOT'', r_fp = ''1'' \<rparr>"
  let ?p = "\<lparr> r_scan = ''S'', r_hash = ''p'', r_source = ''g'', r_fp = ''0'' \<rparr>"
  assume reach: "reachable example_fp_db"
  have "\<forall>r \<in> set (scan_results example_fp_db). \<forall>c \<in> set (scan_results example_fp_db).
               r_scan c = r_scan r \<and> r_source c = r_hash r \<and> r_fp r = ''1'' \<longrightarrow> r_fp c = ''1''"
    using reachable_invariant [OF reach] by (rule conjunct2)
  from this [rule_format, of ?g ?p] show False
    by (simp add: example_fp_db_def)
qed

section \<open>The gate of the false-positive update\<close>

text \<open>
  Claim C10. A request succeeds only if the flag is \<^verbatim>\<open>"0"\<close> or \<^verbatim>\<open>"1"\<close> and the scan
  is stored with status ABORTED, FINISHED or ERROR-FAILED. With any other flag, or with
  a scan that is unknown or in any other status, the answer is an error or a warning
  and the store is left as it was.
\<close>

theorem resultsetfp_gate:
  "(fst (resultsetfp d sid resultids fp) = Json ''SUCCESS'' [] \<longrightarrow>
      fp \<in> set [''0'', ''1''] \<and>
      (\<exists>info. scanInstanceGet d sid = Some info \<and>
              si_status info \<in> set [''ABORTED'', ''FINISHED'', ''ERROR-FAILED'']))
   \<and> (fp \<notin> set [''0'', ''1''] \<or>
       (\<forall>info. scanInstanceGet d sid = Some info \<longrightarrow>
               si_status info \<notin> set [''ABORTED'', ''FINISHED'', ''ERROR-FAILED'']) \<longrightarrow>
      snd (resultsetfp d sid resultids fp) = d \<and>
      (\<exists>msg. fst (resultsetfp d sid resultids fp) = Json ''ERROR'' msg
            \<or> fst (resultsetfp d sid resultids fp) = Json ''WARNING'' msg
            \<or> fst (resultsetfp d sid resultids fp) = ErrorPage msg))"
proof (rule conjI; rule impI)
  assume ok: "fst (resultsetfp d sid resultids fp) = Json ''SUCCESS'' []"
  have flag_ok: "fp \<in> set [''0'', ''1'']"
  proof (rule ccontr)
    assume "fp \<notin> set [''0'', ''1'']"
    then have "resultsetfp d sid resultids fp = (Json ''ERROR'' ''No FP flag set or not set correctly.'', d)"
      by (simp only: resultsetfp_def if_True simp_thms)
    with ok show False by simp
  qed
  then have flag: "\<not> fp \<notin> set [''0'', ''1'']" by blast
  have "\<exists>info. scanInstanceGet d sid = Some info \<and>
              si_status info \<in> set [''ABORTED'', ''FINISHED'', ''ERROR-FAILED'']"
  proof (cases resultids)
    case None
    then have "resultsetfp d sid resultids fp = (Json ''ERROR'' ''No IDs supplied.'', d)"
      by (simp only: resultsetfp_def flag if_False option.case simp_thms)
    with ok show ?thesis by simp
  next
    case (Some ids)
    show ?thesis
    proof (cases "scanInstanceGet d sid")
      case None
      then have "resultsetfp d sid resultids fp = (ErrorPage (''Invalid scan ID: '' @ sid), d)"
        by (simp only: resultsetfp_def Some flag if_False option.case simp_thms)
      with ok show ?thesis by simp
    next
      case (Some info)
      show ?thesis
      proof (cases "si_status info \<in> set [''ABORTED'', ''FINISHED'', ''ERROR-FAILED'']")
        case True
        with Some show ?thesis by blast
      next
        case False
        then have "resultsetfp d sid resultids fp
            = (Json ''WARNING'' ''Scan must be in a finished state when setting False Positives.'', d)"
          by (simp only: resultsetfp_def \<open>resultids = Some ids\<close> Some flag if_False if_True option.case simp_thms)
        with ok show ?thesis by simp
      qed
    qed
  qed
  with flag_ok show "fp \<in> set [''0'', ''1''] \<and>
      (\<exists>info. scanInstanceGet d sid = Some info \<and>
              si_status info \<in> set [''ABORTED'', ''FINISHED'', ''ERROR-FAILED''])"
    by (rule conjI)
next
  assume bad: "fp \<notin> set [''0'', ''1''] \<or>
       (\<forall>info. scanInstanceGet d sid = Some info \<longrightarrow>
               si_status info \<notin> set [''ABORTED'', ''FINISHED'', ''ERROR-FAILED''])"
  have "resultsetfp d sid resultids fp = (Json ''ERROR'' ''No FP flag set or not set correctly.'', d)
      \<or> resultsetfp d sid resultids fp = (Json ''ERROR'' ''No IDs supplied.'', d)
      \<or> resultsetfp d sid resultids fp = (ErrorPage (''Invalid scan ID: '' @ sid), d)
      \<or> resultsetfp d sid resultids fp
          = (Json ''WARNING'' ''Scan must be in a finished state when setting False Positives.'', d)"
  proof (cases "fp \<notin> set [''0'', ''1'']")
    case True
    then show ?thesis by (simp only: resultsetfp_def if_True simp_thms)
  next
    case flag: False
    with bad have st: "\<forall>info. scanInstanceGet d sid = Some info \<longrightarrow>
               si_status info \<notin> set [''ABORTED'', ''FINISHED'', ''ERROR-FAILED'']"
      by blast
    show ?thesis
    proof (cases resultids)
      case None
      then show ?thesis by (simp only: resultsetfp_def flag if_False option.case simp_thms)
    next
      case (Some ids)
      show ?thesis
      proof (cases "scanInstanceGet d sid")
        case None
        then show ?thesis by (simp only: resultsetfp_def Some flag if_False option.case simp_thms)
      next
        case info: (Some info)
        with st have "si_status info \<notin> set [''ABORTED'', ''FINISHED'', ''ERROR-FAILED'']" by blast
        then show ?thesis
          by (simp only: resultsetfp_def Some info flag if_False if_True option.case simp_thms)
      qed
    qed
  qed
  then show "snd (resultsetfp d sid resultids fp) = d \<and>
      (\<exists>msg. fst (resultsetfp d sid resultids fp) = Json ''ERROR'' msg
            \<or> fst (resultsetfp d sid resultids fp) = Json ''WARNING'' msg
            \<or> fst (resultsetfp d sid resultids fp) = ErrorPage msg)"
    by (elim disjE) simp_all
qed

lemma example_running_status:
  "scanInstanceGet example_running_db ''S''
   = Some \<lparr> si_name = ''scan'', si_target = ''example.com'', si_created = 1,
             si_started = 2, si_ended = 0, si_status = ''RUNNING'' \<rparr>"
  by (simp add: scanInstanceGet_def example_running_db_def)

theorem resultsetfp_gate_witness:
  "fst (resultsetfp example_clean_db ''S'' (Some [''g'']) ''1'') = Json ''SUCCESS'' []
   \<and> scanInstanceGet example_clean_db ''S''
     = Some \<lparr> si_name = ''scan'', si_target = ''example.com'', si_created = 1,
               si_started = 2, si_ended = 3, si_status = ''FINISHED'' \<rparr>
   \<and> scanInstanceGet example_running_db ''S''
     = Some \<lparr> si_name = ''scan'', si_target = ''example.com'', si_created = 1,
               si_started = 2, si_ended = 0, si_status = ''RUNNING'' \<rparr>
   \<and> ''RUNNING'' \<notin> set [''ABORTED'', ''FINISHED'', ''ERROR-FAILED'']
   \<and> snd (resultsetfp example_running_db ''S'' (Some [''g'']) ''1'') = example_running_db
   \<and> fst (resultsetfp example_running_db ''S'' (Some [''g'']) ''1'')
     = Json ''WARNING'' ''Scan must be in a finished state when setting False Positives.''"
proof -
  have ok: "fst (resultsetfp example_clean_db ''S'' (Some [''g'']) ''1'') = Json ''SUCCESS'' []"
    using example_flag_run by blast
  have st: "\<forall>info. scanInstanceGet example_running_db ''S'' = Some info \<longrightarrow>
               si_status info \<notin> set [''ABORTED'', ''FINISHED'', ''ERROR-FAILED'']"
    by (simp add: example_running_status)
  from resultsetfp_gate [of example_clean_db "''S''" "Some [''g'']" "''1''"] ok
  have "\<exists>info. scanInstanceGet example_clean_db ''S'' = Some info \<and>
              si_status info \<in> set [''ABORTED'', ''FINISHED'', ''ERROR-FAILED'']"
    by blast
  moreover
  from resultsetfp_gate [of example_running_db "''S''" "Some [''g'']" "''1''"] st
  have "snd (resultsetfp example_running_db ''S'' (Some [''g'']) ''1'') = example_running_db"
    by blast
  moreover
  have "fst (resultsetfp example_running_db ''S'' (Some [''g'']) ''1'')
     = Json ''WARNING'' ''Scan must be in a finished state when setting False Positives.''"
    by (simp add: resultsetfp_def example_running_status)
  ultimately show ?thesis
    using ok example_clean_finished example_running_status by simp
qed

section \<open>The actions of a lookup\<close>

lemma quiet_simps [simp]:
  "quiet []"
  "quiet (a # acts) \<longleftrightarrow> \<not> is_poll a \<and> \<not> is_notify a \<and> quiet acts"
  "quiet (acts @ acts') \<longleftrightarrow> quiet acts \<and> quiet acts'"
  by (auto simp: quiet_def)

lemma get_content_quiet:
  "get_content sf w chk = (r, w1, acts) \<Longrightarrow> quiet acts"
  by (auto simp: get_content_def Let_def split: option.splits if_splits)

lemma scan_iplist_quiet:
  "scan_iplist sf target iplist = (found, acts) \<Longrightarrow> quiet acts"
proof (induction iplist arbitrary: found acts)
  case Nil
  then show ?case by simp
next
  case (Cons ip iplist)
  then show ?case
    by (auto simp: Let_def split: if_splits prod.splits)
qed

lemma resourceList_loop_quiet:
  "resourceList_loop sf chks w rid target targetType targetDom = (r, w1, acts) \<Longrightarrow> quiet acts"
proof (induction chks arbitrary: w r w1 acts)
  case Nil
  then show ?case by simp
next
  case (Cons chk chks)
  show ?case
  proof (cases "rid \<noteq> mc_id chk")
    case True
    with Cons show ?thesis by simp
  next
    case False
    obtain r0 w0 acts0 where gc: "get_content sf w chk = (r0, w0, acts0)"
      by (cases "get_content sf w chk") auto
    have q0: "quiet acts0" using gc by (rule get_content_quiet)
    show ?thesis
    proof (cases r0)
      case (Inl e)
      with Cons.prems False gc q0 show ?thesis by simp
    next
      case (Inr c)
      show ?thesis
      proof (cases c)
        case None
        with Cons.prems False gc q0 Inr show ?thesis by simp
      next
        case (Some content)
        show ?thesis
        proof (cases "targetType = ''netblock''")
          case True
          obtain found acts2 where sc: "scan_iplist sf target (candidates sf chk content) = (found, acts2)"
            by (cases "scan_iplist sf target (candidates sf chk content)") auto
          have "quiet acts2" using sc by (rule scan_iplist_quiet)
          with Cons.prems False gc q0 Inr Some True sc show ?thesis by auto
        next
          case nb: False
          show ?thesis
          proof (cases "match_target sf chk target targetType targetDom content")
            case True
            with Cons.prems False gc q0 Inr Some nb show ?thesis by auto
          next
            case nm: False
            obtain r3 w3 acts3 where rl: "resourceList_loop sf chks w0 rid target targetType targetDom = (r3, w3, acts3)"
              by (cases "resourceList_loop sf chks w0 rid target targetType targetDom") auto
            have "quiet acts3" using rl by (rule Cons.IH)
            with Cons.prems False gc q0 Inr Some nb nm rl show ?thesis by auto
          qed
        qed
      qed
    qed
  qed
qed

lemma resourceList_quiet:
  "resourceList sf w rid target targetType = (r, w1, acts) \<Longrightarrow> quiet acts"
  by (auto simp: resourceList_def split: if_splits option.splits dest: resourceList_loop_quiet)

lemma lookupItem_loop_quiet:
  "lookupItem_loop sf chks w resourceId itemType target = (r, w1, acts) \<Longrightarrow> quiet acts"
  by (induction chks) (auto split: if_splits dest: resourceList_quiet)

lemma lookupItem_quiet:
  "lookupItem sf w resourceId itemType target = (r, w1, acts) \<Longrightarrow> quiet acts"
  by (auto simp: lookupItem_def dest: lookupItem_loop_quiet)


lemma quiet_filter:
  "quiet acts \<Longrightarrow> filter is_poll acts = [] \<and> emitted_events acts = []
     \<and> dropWhile (\<lambda>a. \<not> is_poll a) acts = [] \<and> CheckForStop b \<notin> set acts"
proof (induction acts)
  case Nil
  then show ?case by (simp add: emitted_events_def)
next
  case (Cons a acts)
  then show ?case by (cases a) (auto simp: emitted_events_def)
qed

lemma emitted_events_append: "emitted_events (xs @ ys) = emitted_events xs @ emitted_events ys"
  by (simp add: emitted_events_def)

section \<open>The stop signal in \<^verbatim>\<open>handleEvent\<close>\<close>

text \<open>
  With the one entry of the table, a call that gets as far as the loop does its
  lookup, polls the stop signal once, and emits at most one event after a poll that
  answered no.
\<close>

lemma handle_loop_shape:
  assumes "handle_loop sf name [chk] w ev n = (r, w', acts)"
  shows "\<exists>la. quiet la \<and>
           (acts = la \<or> acts = la @ [CheckForStop True]
            \<or> (\<exists>post. acts = la @ CheckForStop False # post \<and> list_all is_notify post))"
proof (cases "event_kind (ev_eventType ev)")
  case None
  with assms have "acts = []" by simp
  then show ?thesis by (intro exI [of _ "[]"]) simp
next
  case (Some k)
  obtain typeId evtType where k: "k = (typeId, evtType)" by (cases k)
  obtain r0 w0 la where lk: "lookupItem sf w (mc_id chk) typeId (ev_data ev) = (r0, w0, la)"
    by (cases "lookupItem sf w (mc_id chk) typeId (ev_data ev)") auto
  have q: "quiet la" using lk by (rule lookupItem_quiet)
  show ?thesis
  proof (cases r0)
    case (Inl e)
    with assms Some k lk have "acts = la" by simp
    with q show ?thesis by blast
  next
    case (Inr url)
    show ?thesis
    proof (cases "stop_at sf (n + length la)")
      case True
      with assms Some k lk Inr have "acts = la @ [CheckForStop True]" by simp
      with q show ?thesis by blast
    next
      case False
      with assms Some k lk Inr
      have "\<exists>post. acts = la @ CheckForStop False # post \<and> list_all is_notify post"
        by (cases url) (auto simp: Let_def)
      with q show ?thesis by blast
    qed
  qed
qed

lemma shape_properties:
  assumes "quiet la"
      and "acts = la \<or> acts = la @ [CheckForStop True]
            \<or> (\<exists>post. acts = la @ CheckForStop False # post \<and> list_all is_notify post)"
  shows "length (filter is_poll acts) \<le> 1
         \<and> (CheckForStop True \<in> set acts \<longrightarrow> emitted_events acts = [])
         \<and> filter is_contains (dropWhile (\<lambda>a. \<not> is_poll a) acts) = []"
proof -
  note q = quiet_filter [OF assms(1)]
  have nopoll: "\<forall>a \<in> set la. \<not> is_poll a"
    using assms(1) by (simp add: quiet_def list_all_iff)
  have dw: "dropWhile (\<lambda>a. \<not> is_poll a) la = []"
    using nopoll by simp
  from assms(2) consider "acts = la" | "acts = la @ [CheckForStop True]"
    | post where "acts = la @ CheckForStop False # post" "list_all is_notify post"
    by blast
  then show ?thesis
  proof cases
    case 1
    with q show ?thesis by (simp add: dw)
  next
    case 2
    with q nopoll show ?thesis
      by (simp add: emitted_events_append dropWhile_append emitted_events_def)
  next
    case 3
    have post: "filter is_poll post = [] \<and> filter is_contains post = [] \<and> CheckForStop True \<notin> set post"
      using 3(2)
    proof (induction post)
      case Nil
      then show ?case by simp
    next
      case (Cons a post)
      then show ?case by (cases a) auto
    qed
    with 3 q nopoll show ?thesis
      by (simp add: dropWhile_append)
  qed
qed

lemma shape_notify:
  assumes q: "quiet la"
      and shape: "acts = la \<or> acts = la @ [CheckForStop True]
            \<or> (\<exists>post. acts = la @ CheckForStop False # post \<and> list_all is_notify post)"
  shows "\<forall>i < length acts. is_notify (acts ! i) \<longrightarrow> (\<exists>j < i. acts ! j = CheckForStop False)"
proof (intro allI impI)
  fix i
  assume i: "i < length acts" and n: "is_notify (acts ! i)"
  have la: "\<not> is_notify (la ! k)" if "k < length la" for k
    using q that by (simp add: quiet_def list_all_length)
  from shape consider "acts = la" | "acts = la @ [CheckForStop True]"
    | post where "acts = la @ CheckForStop False # post"
    by blast
  then show "\<exists>j < i. acts ! j = CheckForStop False"
  proof cases
    case 1
    with i n la [of i] show ?thesis by simp
  next
    case 2
    show ?thesis
    proof (cases "i < length la")
      case True
      with 2 n la [of i] show ?thesis by (simp add: nth_append)
    next
      case False
      with 2 i have "i = length la" by simp
      with 2 n show ?thesis by simp
    qed
  next
    case 3
    show ?thesis
    proof (cases "i < length la")
      case True
      with 3 n la [of i] show ?thesis by (simp add: nth_append)
    next
      case False
      show ?thesis
      proof (cases "i = length la")
        case True
        with 3 n show ?thesis by simp
      next
        case ne: False
        with False have "length la < i" by simp
        moreover have "acts ! length la = CheckForStop False" using 3 by simp
        ultimately show ?thesis by (intro exI [of _ "length la"] conjI)
      qed
    qed
  qed
qed

lemma handleEvent_reaches_loop:
  assumes "inst_sf inst = Some sf" "inst_results inst = Some results"
      and "results (ev_data ev) = None"
      and "\<not> (ev_eventType ev = ''CO_HOSTED_SITE'' \<and> \<not> opt_enabled (cls_opts w) ''checkcohosts'')"
      and "\<not> (ev_eventType ev = ''AFFILIATE_IPADDR'' \<and> \<not> opt_enabled (cls_opts w) ''checkaffiliates'')"
      and "\<not> (ev_eventType ev = ''NETBLOCK_OWNER'' \<and> \<not> opt_enabled (cls_opts w) ''checknetblocks'')"
      and "\<not> (ev_eventType ev = ''NETBLOCK_MEMBER'' \<and> \<not> opt_enabled (cls_opts w) ''checksubnets'')"
  shows "snd (snd (snd (handleEvent w inst ev)))
         = snd (snd (handle_loop sf (inst_name inst) [voipbl] w ev 0))"
proof -
  obtain r w1 acts where loop: "handle_loop sf (inst_name inst) [voipbl] w ev 0 = (r, w1, acts)"
    by (cases "handle_loop sf (inst_name inst) [voipbl] w ev 0") auto
  have "handleEvent w inst ev
        = (r, w1, inst\<lparr> inst_results := Some (results(ev_data ev \<mapsto> True)) \<rparr>, acts)"
    unfolding handleEvent_def Let_def malchecks_def
    using assms loop by (auto simp del: handle_loop.simps)
  with loop show ?thesis by simp
qed

lemma handle_loop_after_lookup:
  assumes "event_kind (ev_eventType ev) = Some (typeId, evtType)"
      and "lookupItem sf w (mc_id chk) typeId (ev_data ev) = (Inr url, w1, la)"
  shows "snd (snd (handle_loop sf name [chk] w ev 0))
         = la @ CheckForStop (stop_at sf (length la))
              # (if stop_at sf (length la) then []
                 else case url of
                        None \<Rightarrow> []
                      | Some u \<Rightarrow> [Notify (Event evtType (event_text (mc_name chk) (ev_data ev) u)
                                             name (Some ev))])"
  using assms by (cases url) (simp_all add: Let_def)

text \<open>
  Claim C4, as the code has it. A call of \<^verbatim>\<open>handleEvent\<close> polls the stop signal at
  most once, and no containment test follows the poll: the signal is asked after the
  lookup has scanned the list, not between the candidates. When the poll finds the
  signal set, the call emits no event, and every event the call emits follows a poll
  that found the signal not set. A call that gets as far as the lookup, and whose
  lookup returns, does what the lookup did, then polls the signal, and then emits
  the one event if the signal is not set and the lookup gave a URL.
\<close>

theorem stop_signal_polled_after_lookup:
  assumes "handleEvent w inst ev = (r, w', inst', acts)"
  shows "length (filter is_poll acts) \<le> 1
         \<and> (CheckForStop True \<in> set acts \<longrightarrow> emitted_events acts = [])
         \<and> filter is_contains (dropWhile (\<lambda>a. \<not> is_poll a) acts) = []
         \<and> (\<forall>i < length acts. is_notify (acts ! i) \<longrightarrow> (\<exists>j < i. acts ! j = CheckForStop False))
         \<and> (\<forall>sf results typeId evtType url w1 la.
              inst_sf inst = Some sf \<and> inst_results inst = Some results
              \<and> results (ev_data ev) = None
              \<and> \<not> (ev_eventType ev = ''CO_HOSTED_SITE'' \<and> \<not> opt_enabled (cls_opts w) ''checkcohosts'')
              \<and> \<not> (ev_eventType ev = ''AFFILIATE_IPADDR'' \<and> \<not> opt_enabled (cls_opts w) ''checkaffiliates'')
              \<and> \<not> (ev_eventType ev = ''NETBLOCK_OWNER'' \<and> \<not> opt_enabled (cls_opts w) ''checknetblocks'')
              \<and> \<not> (ev_eventType ev = ''NETBLOCK_MEMBER'' \<and> \<not> opt_enabled (cls_opts w) ''checksubnets'')
              \<and> event_kind (ev_eventType ev) = Some (typeId, evtType)
              \<and> lookupItem sf w (mc_id voipbl) typeId (ev_data ev) = (Inr url, w1, la)
              \<longrightarrow> acts = la @ CheckForStop (stop_at sf (length la))
                           # (if stop_at sf (length la) then []
                              else case url of
                                     None \<Rightarrow> []
                                   | Some u \<Rightarrow>
                                       [Notify (Event evtType
                                                  (event_text (mc_name voipbl) (ev_data ev) u)
                                                  (inst_name inst) (Some ev))]))"
proof -
  have "\<exists>la. quiet la \<and>
           (acts = la \<or> acts = la @ [CheckForStop True]
            \<or> (\<exists>post. acts = la @ CheckForStop False # post \<and> list_all is_notify post))"
  proof (cases "\<exists>sf n w0 r0 w1. handle_loop sf (inst_name inst) malchecks w0 ev n = (r0, w1, acts)")
    case True
    then show ?thesis unfolding malchecks_def using handle_loop_shape by blast
  next
    case False
    with assms have "acts = []"
      by (auto simp: handleEvent_def Let_def split: option.splits if_splits prod.splits)
    then show ?thesis by (intro exI [of _ "[]"]) simp
  qed
  then obtain la where shape: "quiet la"
      "acts = la \<or> acts = la @ [CheckForStop True]
            \<or> (\<exists>post. acts = la @ CheckForStop False # post \<and> list_all is_notify post)"
    by blast
  have first: "length (filter is_poll acts) \<le> 1
         \<and> (CheckForStop True \<in> set acts \<longrightarrow> emitted_events acts = [])
         \<and> filter is_contains (dropWhile (\<lambda>a. \<not> is_poll a) acts) = []"
    using shape by (rule shape_properties)
  have notify: "\<forall>i < length acts. is_notify (acts ! i) \<longrightarrow> (\<exists>j < i. acts ! j = CheckForStop False)"
    using shape by (rule shape_notify)
  have acts: "acts = snd (snd (snd (handleEvent w inst ev)))"
    by (simp add: assms)
  have after: "acts = la @ CheckForStop (stop_at sf (length la))
                           # (if stop_at sf (length la) then []
                              else case url of
                                     None \<Rightarrow> []
                                   | Some u \<Rightarrow>
                                       [Notify (Event evtType
                                                  (event_text (mc_name voipbl) (ev_data ev) u)
                                                  (inst_name inst) (Some ev))])"
    if h: "inst_sf inst = Some sf \<and> inst_results inst = Some results
              \<and> results (ev_data ev) = None
              \<and> \<not> (ev_eventType ev = ''CO_HOSTED_SITE'' \<and> \<not> opt_enabled (cls_opts w) ''checkcohosts'')
              \<and> \<not> (ev_eventType ev = ''AFFILIATE_IPADDR'' \<and> \<not> opt_enabled (cls_opts w) ''checkaffiliates'')
              \<and> \<not> (ev_eventType ev = ''NETBLOCK_OWNER'' \<and> \<not> opt_enabled (cls_opts w) ''checknetblocks'')
              \<and> \<not> (ev_eventType ev = ''NETBLOCK_MEMBER'' \<and> \<not> opt_enabled (cls_opts w) ''checksubnets'')
              \<and> event_kind (ev_eventType ev) = Some (typeId, evtType)
              \<and> lookupItem sf w (mc_id voipbl) typeId (ev_data ev) = (Inr url, w1, la)"
    for sf results typeId evtType url w1 la
  proof -
    from h have p: "inst_sf inst = Some sf" "inst_results inst = Some results"
        "results (ev_data ev) = None"
        "\<not> (ev_eventType ev = ''CO_HOSTED_SITE'' \<and> \<not> opt_enabled (cls_opts w) ''checkcohosts'')"
        "\<not> (ev_eventType ev = ''AFFILIATE_IPADDR'' \<and> \<not> opt_enabled (cls_opts w) ''checkaffiliates'')"
        "\<not> (ev_eventType ev = ''NETBLOCK_OWNER'' \<and> \<not> opt_enabled (cls_opts w) ''checknetblocks'')"
        "\<not> (ev_eventType ev = ''NETBLOCK_MEMBER'' \<and> \<not> opt_enabled (cls_opts w) ''checksubnets'')"
      and k: "event_kind (ev_eventType ev) = Some (typeId, evtType)"
      and l: "lookupItem sf w (mc_id voipbl) typeId (ev_data ev) = (Inr url, w1, la)"
      by simp_all
    show ?thesis
      unfolding acts handleEvent_reaches_loop [OF p] by (rule handle_loop_after_lookup [OF k l])
  qed
  have last: "\<forall>sf results typeId evtType url w1 la.
              inst_sf inst = Some sf \<and> inst_results inst = Some results
              \<and> results (ev_data ev) = None
              \<and> \<not> (ev_eventType ev = ''CO_HOSTED_SITE'' \<and> \<not> opt_enabled (cls_opts w) ''checkcohosts'')
              \<and> \<not> (ev_eventType ev = ''AFFILIATE_IPADDR'' \<and> \<not> opt_enabled (cls_opts w) ''checkaffiliates'')
              \<and> \<not> (ev_eventType ev = ''NETBLOCK_OWNER'' \<and> \<not> opt_enabled (cls_opts w) ''checknetblocks'')
              \<and> \<not> (ev_eventType ev = ''NETBLOCK_MEMBER'' \<and> \<not> opt_enabled (cls_opts w) ''checksubnets'')
              \<and> event_kind (ev_eventType ev) = Some (typeId, evtType)
              \<and> lookupItem sf w (mc_id voipbl) typeId (ev_data ev) = (Inr url, w1, la)
              \<longrightarrow> acts = la @ CheckForStop (stop_at sf (length la))
                           # (if stop_at sf (length la) then []
                              else case url of
                                     None \<Rightarrow> []
                                   | Some u \<Rightarrow>
                                       [Notify (Event evtType
                                                  (event_text (mc_name voipbl) (ev_data ev) u)
                                                  (inst_name inst) (Some ev))])"
    by (intro allI impI) (rule after)
  note c1 = first [THEN conjunct1]
  note c2 = first [THEN conjunct2, THEN conjunct1]
  note c3 = first [THEN conjunct2, THEN conjunct2]
  show ?thesis
    by (intro conjI) (fact c1, fact c2, fact c3, fact notify, fact last)
qed

lemma example_stopped_run:
  "snd (snd (snd (handleEvent
      (fst (start_scan initial_world (example_sfc example_list True) example_globals))
      (snd (start_scan initial_world (example_sfc example_list True) example_globals))
      example_netblock_event)))
   = [CacheGet ''sfmal__voipbl'', FetchUrl ''http://www.voipbl.org/update'',
      CachePut ''sfmal__voipbl'',
      Contains ''192.0.2.10'' ''192.0.2.0/24'' (Some True), CheckForStop True]"
  by code_simp

lemma example_emitting_run:
  "snd (snd (snd (handleEvent
      (fst (start_scan initial_world (example_sfc example_list False) example_globals))
      (snd (start_scan initial_world (example_sfc example_list False) example_globals))
      example_netblock_event)))
   = [CacheGet ''sfmal__voipbl'', FetchUrl ''http://www.voipbl.org/update'',
      CachePut ''sfmal__voipbl'',
      Contains ''192.0.2.10'' ''192.0.2.0/24'' (Some True), CheckForStop False,
      Notify (Event ''MALICIOUS_NETBLOCK''
                (''VOIPBL Publicly Accessible PBX List [192.0.2.0/24]'' @ [CHR 0x0A]
                   @ ''<SFURL>http://www.voipbl.org/update</SFURL>'')
                ''sfp_voipbl'' (Some example_netblock_event))]"
  by code_simp

lemma example_lookup:
  "fst (lookupItem (example_sfc example_list stop)
          (fst (start_scan initial_world (example_sfc example_list stop) example_globals))
          (mc_id voipbl) ''netblock'' (ev_data example_netblock_event))
   = Inr (Some ''http://www.voipbl.org/update'')
   \<and> snd (snd (lookupItem (example_sfc example_list stop)
          (fst (start_scan initial_world (example_sfc example_list stop) example_globals))
          (mc_id voipbl) ''netblock'' (ev_data example_netblock_event)))
   = [CacheGet ''sfmal__voipbl'', FetchUrl ''http://www.voipbl.org/update'',
      CachePut ''sfmal__voipbl'', Contains ''192.0.2.10'' ''192.0.2.0/24'' (Some True)]"
proof (cases stop)
  case True
  show ?thesis unfolding True by code_simp
next
  case False
  show ?thesis unfolding False by code_simp
qed

lemma example_reaches_lookup:
  "inst_sf (snd (start_scan initial_world (example_sfc example_list stop) example_globals))
     = Some (example_sfc example_list stop)
   \<and> inst_results (snd (start_scan initial_world (example_sfc example_list stop) example_globals))
     = Some tempStorage
   \<and> tempStorage (ev_data example_netblock_event) = None
   \<and> \<not> (ev_eventType example_netblock_event = ''CO_HOSTED_SITE''
        \<and> \<not> opt_enabled (cls_opts (fst (start_scan initial_world (example_sfc example_list stop) example_globals))) ''checkcohosts'')
   \<and> \<not> (ev_eventType example_netblock_event = ''AFFILIATE_IPADDR''
        \<and> \<not> opt_enabled (cls_opts (fst (start_scan initial_world (example_sfc example_list stop) example_globals))) ''checkaffiliates'')
   \<and> \<not> (ev_eventType example_netblock_event = ''NETBLOCK_OWNER''
        \<and> \<not> opt_enabled (cls_opts (fst (start_scan initial_world (example_sfc example_list stop) example_globals))) ''checknetblocks'')
   \<and> \<not> (ev_eventType example_netblock_event = ''NETBLOCK_MEMBER''
        \<and> \<not> opt_enabled (cls_opts (fst (start_scan initial_world (example_sfc example_list stop) example_globals))) ''checksubnets'')
   \<and> event_kind (ev_eventType example_netblock_event) = Some (''netblock'', ''MALICIOUS_NETBLOCK'')"
  by (simp add: example_netblock_event_def opt_enabled_def start_scan_def setup_module_def
      initial_world_def default_opts_def example_globals_def tempStorage_def event_kind_def)

theorem stop_signal_polled_after_lookup_witness:
  "(CheckForStop True \<in> set (snd (snd (snd (handleEvent
        (fst (start_scan initial_world (example_sfc example_list True) example_globals))
        (snd (start_scan initial_world (example_sfc example_list True) example_globals))
        example_netblock_event))))
    \<and> emitted_events (snd (snd (snd (handleEvent
        (fst (start_scan initial_world (example_sfc example_list True) example_globals))
        (snd (start_scan initial_world (example_sfc example_list True) example_globals))
        example_netblock_event)))) = []
    \<and> snd (snd (snd (handleEvent
        (fst (start_scan initial_world (example_sfc example_list True) example_globals))
        (snd (start_scan initial_world (example_sfc example_list True) example_globals))
        example_netblock_event)))
      = snd (snd (lookupItem (example_sfc example_list True)
          (fst (start_scan initial_world (example_sfc example_list True) example_globals))
          (mc_id voipbl) ''netblock'' (ev_data example_netblock_event)))
        @ [CheckForStop True])
   \<and> (is_notify (snd (snd (snd (handleEvent
        (fst (start_scan initial_world (example_sfc example_list False) example_globals))
        (snd (start_scan initial_world (example_sfc example_list False) example_globals))
        example_netblock_event))) ! 5)
    \<and> (\<exists>j < 5. snd (snd (snd (handleEvent
        (fst (start_scan initial_world (example_sfc example_list False) example_globals))
        (snd (start_scan initial_world (example_sfc example_list False) example_globals))
        example_netblock_event))) ! j = CheckForStop False)
    \<and> snd (snd (snd (handleEvent
        (fst (start_scan initial_world (example_sfc example_list False) example_globals))
        (snd (start_scan initial_world (example_sfc example_list False) example_globals))
        example_netblock_event)))
      = snd (snd (lookupItem (example_sfc example_list False)
          (fst (start_scan initial_world (example_sfc example_list False) example_globals))
          (mc_id voipbl) ''netblock'' (ev_data example_netblock_event)))
        @ [CheckForStop False,
           Notify (Event ''MALICIOUS_NETBLOCK''
                     (event_text (mc_name voipbl) (ev_data example_netblock_event)
                        ''http://www.voipbl.org/update'')
                     ''sfp_voipbl'' (Some example_netblock_event))])"
proof -
  have name: "inst_name (snd (start_scan initial_world (example_sfc example_list stop) example_globals))
              = ''sfp_voipbl''" for stop
    by (simp add: start_scan_def setup_module_def new_instance_def)
  have stop: "stop_at (example_sfc example_list stop) n = stop" for stop n
    by (simp add: example_sfc_def)
  have hyps: "inst_sf (snd (start_scan initial_world (example_sfc example_list stop) example_globals))
     = Some (example_sfc example_list stop)
   \<and> inst_results (snd (start_scan initial_world (example_sfc example_list stop) example_globals))
     = Some tempStorage
   \<and> tempStorage (ev_data example_netblock_event) = None
   \<and> \<not> (ev_eventType example_netblock_event = ''CO_HOSTED_SITE''
        \<and> \<not> opt_enabled (cls_opts (fst (start_scan initial_world (example_sfc example_list stop) example_globals))) ''checkcohosts'')
   \<and> \<not> (ev_eventType example_netblock_event = ''AFFILIATE_IPADDR''
        \<and> \<not> opt_enabled (cls_opts (fst (start_scan initial_world (example_sfc example_list stop) example_globals))) ''checkaffiliates'')
   \<and> \<not> (ev_eventType example_netblock_event = ''NETBLOCK_OWNER''
        \<and> \<not> opt_enabled (cls_opts (fst (start_scan initial_world (example_sfc example_list stop) example_globals))) ''checknetblocks'')
   \<and> \<not> (ev_eventType example_netblock_event = ''NETBLOCK_MEMBER''
        \<and> \<not> opt_enabled (cls_opts (fst (start_scan initial_world (example_sfc example_list stop) example_globals))) ''checksubnets'')
   \<and> event_kind (ev_eventType example_netblock_event) = Some (''netblock'', ''MALICIOUS_NETBLOCK'')
   \<and> lookupItem (example_sfc example_list stop)
          (fst (start_scan initial_world (example_sfc example_list stop) example_globals))
          (mc_id voipbl) ''netblock'' (ev_data example_netblock_event)
      = (Inr (Some ''http://www.voipbl.org/update''),
         fst (snd (lookupItem (example_sfc example_list stop)
          (fst (start_scan initial_world (example_sfc example_list stop) example_globals))
          (mc_id voipbl) ''netblock'' (ev_data example_netblock_event))),
         snd (snd (lookupItem (example_sfc example_list stop)
          (fst (start_scan initial_world (example_sfc example_list stop) example_globals))
          (mc_id voipbl) ''netblock'' (ev_data example_netblock_event))))" for stop
  proof -
    let ?X = "lookupItem (example_sfc example_list stop)
          (fst (start_scan initial_world (example_sfc example_list stop) example_globals))
          (mc_id voipbl) ''netblock'' (ev_data example_netblock_event)"
    have "fst ?X = Inr (Some ''http://www.voipbl.org/update'')"
      using example_lookup [of stop] by (rule conjunct1)
    then have "?X = (Inr (Some ''http://www.voipbl.org/update''), fst (snd ?X), snd (snd ?X))"
      by (simp add: prod_eq_iff)
    with example_reaches_lookup [of stop] show ?thesis
      by (simp only: simp_thms)
  qed
  let ?wA = "fst (start_scan initial_world (example_sfc example_list True) example_globals)"
  let ?iA = "snd (start_scan initial_world (example_sfc example_list True) example_globals)"
  let ?runA = "handleEvent ?wA ?iA example_netblock_event"
  let ?wB = "fst (start_scan initial_world (example_sfc example_list False) example_globals)"
  let ?iB = "snd (start_scan initial_world (example_sfc example_list False) example_globals)"
  let ?runB = "handleEvent ?wB ?iB example_netblock_event"
  have runA: "?runA = (fst ?runA, fst (snd ?runA), fst (snd (snd ?runA)), snd (snd (snd ?runA)))"
    by simp
  have runB: "?runB = (fst ?runB, fst (snd ?runB), fst (snd (snd ?runB)), snd (snd (snd ?runB)))"
    by simp
  note A = stop_signal_polled_after_lookup [OF runA]
  note B = stop_signal_polled_after_lookup [OF runB]
  have pollA: "CheckForStop True \<in> set (snd (snd (snd ?runA)))"
    by (simp only: example_stopped_run) simp
  have quietA: "emitted_events (snd (snd (snd ?runA))) = []"
    using A [THEN conjunct2, THEN conjunct1] pollA by (rule mp)
  have afterA: "snd (snd (snd ?runA))
      = snd (snd (lookupItem (example_sfc example_list True) ?wA
                    (mc_id voipbl) ''netblock'' (ev_data example_netblock_event)))
        @ [CheckForStop True]"
    using A [THEN conjunct2, THEN conjunct2, THEN conjunct2, THEN conjunct2, rule_format,
             OF hyps [of True]]
    by (simp add: stop)
  have notifyB: "is_notify (snd (snd (snd ?runB)) ! 5)"
    by (simp only: example_emitting_run) simp
  have lenB: "5 < length (snd (snd (snd ?runB)))"
    by (simp only: example_emitting_run) simp
  have beforeB: "\<exists>j < 5. snd (snd (snd ?runB)) ! j = CheckForStop False"
    using B [THEN conjunct2, THEN conjunct2, THEN conjunct2, THEN conjunct1, rule_format,
             OF lenB notifyB] .
  have afterB: "snd (snd (snd ?runB))
      = snd (snd (lookupItem (example_sfc example_list False) ?wB
                    (mc_id voipbl) ''netblock'' (ev_data example_netblock_event)))
        @ [CheckForStop False,
           Notify (Event ''MALICIOUS_NETBLOCK''
                     (event_text (mc_name voipbl) (ev_data example_netblock_event)
                        ''http://www.voipbl.org/update'')
                     ''sfp_voipbl'' (Some example_netblock_event))]"
    using B [THEN conjunct2, THEN conjunct2, THEN conjunct2, THEN conjunct2, rule_format,
             OF hyps [of False]]
    by (simp add: stop name)
  show ?thesis
    by (intro conjI) (fact pollA, fact quietA, fact afterA, fact notifyB, fact beforeB, fact afterB)
qed

text \<open>
  Claim C4 as stated fails: with the stop signal set from the start of the call, the
  module still tests all three candidates of the list, one after the other, and asks
  the signal only afterwards.
\<close>

theorem stop_signal_between_candidates_counterexample:
  "stop_at (example_sfc example_list True) 0
   \<and> snd (snd (snd (handleEvent
      (fst (start_scan initial_world (example_sfc example_list True) example_globals))
      (snd (start_scan initial_world (example_sfc example_list True) example_globals))
      example_far_netblock_event)))
   = [CacheGet ''sfmal__voipbl'', FetchUrl ''http://www.voipbl.org/update'',
      CachePut ''sfmal__voipbl'',
      Contains ''192.0.2.10'' ''10.0.0.0/8'' (Some False),
      Contains ''192.0.2.11'' ''10.0.0.0/8'' (Some False),
      Contains ''192.0.2.12'' ''10.0.0.0/8'' (Some False),
      CheckForStop True]"
  by code_simp

section \<open>The dedup cache\<close>

text \<open>
  An event whose data is recorded is skipped: nothing is looked up, nothing is emitted,
  and the world and the instance stay as they were.
\<close>

lemma handleEvent_skips_marked:
  assumes "inst_sf inst = Some sf" "inst_results inst = Some results"
      and "results (ev_data ev) \<noteq> None"
  shows "handleEvent w inst ev = (Inr (), w, inst, [])"
  using assms by (simp add: handleEvent_def)

text \<open>
  A call records the data of its event, whatever its outcome, and keeps what was
  recorded before.
\<close>

lemma handleEvent_marks:
  assumes "inst_sf inst = Some sf" "inst_results inst = Some results"
      and "handleEvent w inst ev = (r, w1, inst1, acts)"
  shows "inst_sf inst1 = Some sf
         \<and> (\<exists>results1. inst_results inst1 = Some results1 \<and> results1 (ev_data ev) \<noteq> None
               \<and> (\<forall>k. results k \<noteq> None \<longrightarrow> results1 k \<noteq> None))"
proof (cases "results (ev_data ev) \<noteq> None")
  case True
  with assms have "inst1 = inst" by (simp add: handleEvent_def)
  with assms(1,2) True show ?thesis by simp
next
  case False
  with assms have "inst1 = inst\<lparr> inst_results := Some (results(ev_data ev \<mapsto> True)) \<rparr>"
    by (auto simp: handleEvent_def Let_def split: if_splits prod.splits)
  with assms(1) show ?thesis by auto
qed

lemma handle_events_marks:
  assumes "inst_sf inst = Some sf" "inst_results inst = Some results"
      and "handle_events w inst evs = (w1, inst1, acts1)"
  shows "inst_sf inst1 = Some sf
         \<and> (\<exists>results1. inst_results inst1 = Some results1
               \<and> (\<forall>k. results k \<noteq> None \<or> k \<in> ev_data ` set evs \<longrightarrow> results1 k \<noteq> None))"
  using assms
proof (induction evs arbitrary: w inst results acts1)
  case Nil
  then show ?case by simp
next
  case (Cons e es)
  obtain r w' inst' acts where call: "handleEvent w inst e = (r, w', inst', acts)"
    by (cases "handleEvent w inst e") auto
  obtain acts2 where rest: "handle_events w' inst' es = (w1, inst1, acts2)"
    using Cons.prems(3) call by (auto split: prod.splits)
  from handleEvent_marks [OF Cons.prems(1,2) call] obtain results' where
    sf': "inst_sf inst' = Some sf" and res': "inst_results inst' = Some results'"
    and new: "results' (ev_data e) \<noteq> None"
    and old: "\<forall>k. results k \<noteq> None \<longrightarrow> results' k \<noteq> None"
    by (elim conjE exE)
  from Cons.IH [OF sf' res' rest] obtain results1 where
    sf1: "inst_sf inst1 = Some sf" and res1: "inst_results inst1 = Some results1"
    and keep: "\<forall>k. results' k \<noteq> None \<or> k \<in> ev_data ` set es \<longrightarrow> results1 k \<noteq> None"
    by (elim conjE exE)
  have "\<forall>k. results k \<noteq> None \<or> k \<in> ev_data ` set (e # es) \<longrightarrow> results1 k \<noteq> None"
  proof (intro allI impI)
    fix k
    assume "results k \<noteq> None \<or> k \<in> ev_data ` set (e # es)"
    then consider "results k \<noteq> None" | "k = ev_data e" | "k \<in> ev_data ` set es"
      by auto
    then show "results1 k \<noteq> None"
    proof cases
      case 1
      with old have "results' k \<noteq> None" by simp
      with keep show ?thesis by simp
    next
      case 2
      with new have "results' k \<noteq> None" by simp
      with keep show ?thesis by simp
    next
      case 3
      with keep show ?thesis by simp
    qed
  qed
  with sf1 res1 show ?case by simp
qed

text \<open>
  Claim C9. After \<^verbatim>\<open>setup\<close>, once \<^verbatim>\<open>handleEvent\<close> has been given an event, a
  later event with the same data returns at once, however many events were delivered
  in between: nothing is looked up, nothing is emitted, and the world and the
  instance stay as they were.
\<close>

theorem repeated_data_is_skipped:
  assumes "inst_sf inst = Some sf" "inst_results inst = Some results"
      and "handle_events w inst evs = (w1, inst1, acts1)"
      and "e1 \<in> set evs" "ev_data e2 = ev_data e1"
  shows "handleEvent w1 inst1 e2 = (Inr (), w1, inst1, [])"
proof -
  from handle_events_marks [OF assms(1-3)] obtain results1 where
    sf1: "inst_sf inst1 = Some sf" and res1: "inst_results inst1 = Some results1"
    and keep: "\<forall>k. results k \<noteq> None \<or> k \<in> ev_data ` set evs \<longrightarrow> results1 k \<noteq> None"
    by (elim conjE exE)
  have "ev_data e2 \<in> ev_data ` set evs"
    unfolding assms(5) using assms(4) by (rule imageI)
  with keep have "results1 (ev_data e2) \<noteq> None" by simp
  with sf1 res1 show ?thesis by (rule handleEvent_skips_marked)
qed

lemma example_scan_instance:
  "inst_sf (snd (start_scan initial_world (example_sfc example_list False) example_globals))
     = Some (example_sfc example_list False)
   \<and> inst_results (snd (start_scan initial_world (example_sfc example_list False) example_globals))
     = Some tempStorage"
  by (simp add: start_scan_def setup_module_def)

theorem repeated_data_is_skipped_witness:
  "example_netblock_event \<in> set [example_netblock_event, example_ip_event]
   \<and> ev_data example_member_event = ev_data example_netblock_event
   \<and> handleEvent
       (fst (handle_events
          (fst (start_scan initial_world (example_sfc example_list False) example_globals))
          (snd (start_scan initial_world (example_sfc example_list False) example_globals))
          [example_netblock_event, example_ip_event]))
       (fst (snd (handle_events
          (fst (start_scan initial_world (example_sfc example_list False) example_globals))
          (snd (start_scan initial_world (example_sfc example_list False) example_globals))
          [example_netblock_event, example_ip_event])))
       example_member_event
     = (Inr (),
        fst (handle_events
          (fst (start_scan initial_world (example_sfc example_list False) example_globals))
          (snd (start_scan initial_world (example_sfc example_list False) example_globals))
          [example_netblock_event, example_ip_event]),
        fst (snd (handle_events
          (fst (start_scan initial_world (example_sfc example_list False) example_globals))
          (snd (start_scan initial_world (example_sfc example_list False) example_globals))
          [example_netblock_event, example_ip_event])),
        [])"
proof -
  let ?w = "fst (start_scan initial_world (example_sfc example_list False) example_globals)"
  let ?i = "snd (start_scan initial_world (example_sfc example_list False) example_globals)"
  let ?run = "handle_events ?w ?i [example_netblock_event, example_ip_event]"
  have run: "?run = (fst ?run, fst (snd ?run), snd (snd ?run))"
    by simp
  have mem: "example_netblock_event \<in> set [example_netblock_event, example_ip_event]"
    by simp
  have same: "ev_data example_member_event = ev_data example_netblock_event"
    by (simp add: example_member_event_def example_netblock_event_def)
  have sf: "inst_sf ?i = Some (example_sfc example_list False)"
    using example_scan_instance by (rule conjunct1)
  have res: "inst_results ?i = Some tempStorage"
    using example_scan_instance by (rule conjunct2)
  from mem same repeated_data_is_skipped [OF sf res run mem same] show ?thesis
    by (intro conjI)
qed

section \<open>What \<^verbatim>\<open>setup\<close> resets\<close>

lemma setup_resets_results:
  "inst_results (snd (setup_module w inst sf userOpts)) = Some tempStorage \<and> tempStorage key = None"
  by (simp add: setup_module_def tempStorage_def)

lemma setup_keeps_overrides:
  "cls_opts (fst (setup_module w inst sf userOpts)) = cls_opts w ++ userOpts"
  by (simp add: setup_module_def)

text \<open>
  Claim C2 fails on the code. The first scan overrides \<^verbatim>\<open>checkaffiliates\<close>; the second
  scan, with a new instance and without that override, still finds it switched off, and
  its \<^verbatim>\<open>handleEvent\<close> skips an affiliate address that a scan in a fresh process
  reports.
\<close>

theorem option_override_survives_setup:
  "default_opts ''checkaffiliates'' = Some (OBool True)
   \<and> example_globals ''checkaffiliates'' = None
   \<and> cls_opts (fst (start_scan
                     (fst (start_scan initial_world (example_sfc example_list False) example_overrides))
                     (example_sfc example_list False) example_globals)) ''checkaffiliates''
     = Some (OBool False)
   \<and> emitted_events (snd (snd (snd (handleEvent
        (fst (start_scan
                (fst (start_scan initial_world (example_sfc example_list False) example_overrides))
                (example_sfc example_list False) example_globals))
        (snd (start_scan
                (fst (start_scan initial_world (example_sfc example_list False) example_overrides))
                (example_sfc example_list False) example_globals))
        example_affiliate_event)))) = []
   \<and> emitted_events (snd (snd (snd (handleEvent
        (fst (start_scan initial_world (example_sfc example_list False) example_globals))
        (snd (start_scan initial_world (example_sfc example_list False) example_globals))
        example_affiliate_event))))
     = [Event ''MALICIOUS_AFFILIATE_IPADDR''
          (''VOIPBL Publicly Accessible PBX List [192.0.2.10]'' @ [CHR 0x0A]
             @ ''<SFURL>http://www.voipbl.org/update</SFURL>'')
          ''sfp_voipbl'' (Some example_affiliate_event)]"
  by code_simp

section \<open>Netblocks against the list\<close>

lemma scan_iplist_found:
  assumes "ip \<in> set iplist" "8 \<le> length ip" "\<not> startswith_hash ip"
      and "ip_in_net sf (py_strip ip) target = Some True"
  shows "\<exists>pre ip'. scan_iplist sf target iplist = (True, pre @ [Contains ip' target (Some True)])
           \<and> filter is_match pre = []"
  using assms(1)
proof (induction iplist)
  case Nil
  then show ?case by simp
next
  case (Cons x xs)
  show ?case
  proof (cases "length x < 8 \<or> startswith_hash x")
    case True
    with assms(2,3) have "ip \<noteq> x" by auto
    with Cons.prems have "ip \<in> set xs" by simp
    from Cons.IH [OF this] True show ?thesis by simp
  next
    case False
    show ?thesis
    proof (cases "ip_in_net sf (py_strip x) target = Some True")
      case True
      with False have "scan_iplist sf target (x # xs)
                       = (True, [] @ [Contains (py_strip x) target (Some True)])"
        by (simp add: Let_def)
      then show ?thesis by (intro exI [of _ "[]"] exI [of _ "py_strip x"]) simp
    next
      case miss: False
      with assms(4) have "ip \<noteq> x" by auto
      with Cons.prems have "ip \<in> set xs" by simp
      from Cons.IH [OF this] obtain pre ip' where
        ih: "scan_iplist sf target xs = (True, pre @ [Contains ip' target (Some True)])"
            "filter is_match pre = []"
        by blast
      let ?a = "Contains (py_strip x) target (ip_in_net sf (py_strip x) target)"
      have "scan_iplist sf target (x # xs) = (True, (?a # pre) @ [Contains ip' target (Some True)])"
        using False miss ih(1) by (simp add: Let_def)
      moreover have "filter is_match (?a # pre) = []"
        using miss ih(2) by simp
      ultimately show ?thesis by blast
    qed
  qed
qed

lemma lookup_netblock:
  "lookupItem sf w ''_voipbl'' ''netblock'' target
   = (case get_content sf w voipbl of
        (Inl e, w1, acts) \<Rightarrow> (Inl e, w1, acts)
      | (Inr None, w1, acts) \<Rightarrow> (Inr None, w1, acts)
      | (Inr (Some content), w1, acts) \<Rightarrow>
          (case scan_iplist sf target (candidates sf voipbl content) of
             (found, acts2) \<Rightarrow>
               (Inr (if found then Some (mc_url voipbl) else None), w1, acts @ acts2)))"
proof -
  have id: "mc_id voipbl = ''_voipbl''" and ck: "''netblock'' \<in> set (mc_checks voipbl)"
    by (simp_all add: voipbl_def)
  have "lookupItem sf w ''_voipbl'' ''netblock'' target
        = resourceList sf w ''_voipbl'' target ''netblock''"
    by (simp add: lookupItem_def malchecks_def id ck)
  also have "\<dots> = resourceList_loop sf [voipbl] w ''_voipbl'' target ''netblock'' []"
    by (simp add: resourceList_def malchecks_def)
  finally show ?thesis
    by (simp add: id split: prod.splits sum.splits option.splits)
qed

text \<open>
  Claim C5, as the code has it. The instance is set up, the data of the event is new
  to it, the event is a \<^verbatim>\<open>NETBLOCK_OWNER\<close> or \<^verbatim>\<open>NETBLOCK_MEMBER\<close> whose option is
  on, the content of the list is at hand, and the stop signal is not set. If a
  candidate address of at least eight characters is in the netblock, the call emits
  exactly one event, \<^verbatim>\<open>MALICIOUS_NETBLOCK\<close> or \<^verbatim>\<open>MALICIOUS_SUBNET\<close>, whose text
  carries the URL of the list, and the scan of the candidates ends with the first
  containment test that succeeds.
\<close>

theorem netblock_match_emits_one_event:
  assumes "inst_sf inst = Some sf" "inst_results inst = Some results"
      and "results (ev_data ev) = None"
      and "(ev_eventType ev = ''NETBLOCK_OWNER'' \<and> opt_enabled (cls_opts w) ''checknetblocks'')
           \<or> (ev_eventType ev = ''NETBLOCK_MEMBER'' \<and> opt_enabled (cls_opts w) ''checksubnets'')"
      and "get_content sf w voipbl = (Inr (Some content), w1, acts0)"
      and "ip \<in> set (candidates sf voipbl content)" "8 \<le> length ip" "\<not> startswith_hash ip"
      and "ip_in_net sf (py_strip ip) (ev_data ev) = Some True"
      and "\<forall>n. \<not> stop_at sf n"
  shows "\<exists>acts pre ip'.
           handleEvent w inst ev
             = (Inr (), w1, inst\<lparr> inst_results := Some (results(ev_data ev \<mapsto> True)) \<rparr>, acts)
           \<and> emitted_events acts
             = [Event (if ev_eventType ev = ''NETBLOCK_OWNER''
                       then ''MALICIOUS_NETBLOCK'' else ''MALICIOUS_SUBNET'')
                  (mc_name voipbl @ '' ['' @ ev_data ev @ '']'' @ [CHR 0x0A]
                     @ ''<SFURL>'' @ mc_url voipbl @ ''</SFURL>'')
                  (inst_name inst) (Some ev)]
           \<and> filter is_contains acts = pre @ [Contains ip' (ev_data ev) (Some True)]
           \<and> filter is_match pre = []"
proof -
  let ?evt = "if ev_eventType ev = ''NETBLOCK_OWNER'' then ''MALICIOUS_NETBLOCK'' else ''MALICIOUS_SUBNET''"
  let ?E = "Event ?evt (event_text (mc_name voipbl) (ev_data ev) (mc_url voipbl)) (inst_name inst) (Some ev)"
  from scan_iplist_found [OF assms(6-9)] obtain pre ip' where
    sc: "scan_iplist sf (ev_data ev) (candidates sf voipbl content)
         = (True, pre @ [Contains ip' (ev_data ev) (Some True)])"
    and pre: "filter is_match pre = []"
    by blast
  have q0: "quiet acts0" using assms(5) by (rule get_content_quiet)
  have q1: "quiet (pre @ [Contains ip' (ev_data ev) (Some True)])" using sc by (rule scan_iplist_quiet)
  have kind: "event_kind (ev_eventType ev) = Some (''netblock'', ?evt)"
    using assms(4) by (auto simp: event_kind_def)
  have lk: "lookupItem sf w (mc_id voipbl) ''netblock'' (ev_data ev)
            = (Inr (Some (mc_url voipbl)), w1, acts0 @ pre @ [Contains ip' (ev_data ev) (Some True)])"
    using assms(5) sc by (simp add: lookup_netblock voipbl_def)
  let ?acts = "acts0 @ pre @ [Contains ip' (ev_data ev) (Some True), CheckForStop False, Notify ?E]"
  have loop: "handle_loop sf (inst_name inst) [voipbl] w ev 0 = (Inr (), w1, ?acts)"
    using kind lk assms(10) by (simp add: Let_def)
  have gate: "\<not> (ev_eventType ev = ''CO_HOSTED_SITE'' \<and> \<not> opt_enabled (cls_opts w) ''checkcohosts'')"
             "\<not> (ev_eventType ev = ''AFFILIATE_IPADDR'' \<and> \<not> opt_enabled (cls_opts w) ''checkaffiliates'')"
             "\<not> (ev_eventType ev = ''NETBLOCK_OWNER'' \<and> \<not> opt_enabled (cls_opts w) ''checknetblocks'')"
             "\<not> (ev_eventType ev = ''NETBLOCK_MEMBER'' \<and> \<not> opt_enabled (cls_opts w) ''checksubnets'')"
    using assms(4) by auto
  have run: "handleEvent w inst ev
             = (Inr (), w1, inst\<lparr> inst_results := Some (results(ev_data ev \<mapsto> True)) \<rparr>, ?acts)"
    unfolding handleEvent_def Let_def malchecks_def
    by (simp only: assms(1,2,3) option.case gate loop if_False prod.case simp_thms)
  have nocont: "filter is_contains acts0 = []"
    using assms(5) by (auto simp: get_content_def Let_def split: option.splits if_splits)
  have allcont: "filter is_contains pre = pre"
  proof -
    have "\<And>found acts. scan_iplist sf (ev_data ev) xs = (found, acts) \<Longrightarrow> filter is_contains acts = acts" for xs
    proof (induction xs)
      case Nil
      then show ?case by simp
    next
      case (Cons x xs)
      then show ?case by (auto simp: Let_def split: if_splits prod.splits)
    qed
    from this [OF sc] show ?thesis by simp
  qed
  have em: "emitted_events ?acts = [?E]"
    using quiet_filter [OF q0] quiet_filter [OF q1]
    by (simp add: emitted_events_append) (simp add: emitted_events_def)
  have cont: "filter is_contains ?acts = pre @ [Contains ip' (ev_data ev) (Some True)]"
    using nocont allcont by simp
  from run em cont pre show ?thesis
    unfolding event_text_def by blast
qed


lemma example_content:
  "get_content (example_sfc example_list False)
     (fst (start_scan initial_world (example_sfc example_list False) example_globals)) voipbl
   = (Inr (Some example_list),
      (fst (start_scan initial_world (example_sfc example_list False) example_globals))
        \<lparr> cache := (cache (fst (start_scan initial_world (example_sfc example_list False) example_globals)))
                      (''sfmal_'' @ mc_id voipbl \<mapsto> example_list) \<rparr>,
      [CacheGet (''sfmal_'' @ mc_id voipbl), FetchUrl (mc_url voipbl), CachePut (''sfmal_'' @ mc_id voipbl)])"
  by (simp add: get_content_def Let_def start_scan_def setup_module_def initial_world_def
      example_sfc_def voipbl_def example_globals_def default_opts_def)

lemma example_candidate:
  "''192.0.2.10'' \<in> set (candidates (example_sfc example_list False) voipbl example_list)
   \<and> ip_in_net (example_sfc example_list False) (py_strip ''192.0.2.10'')
        (ev_data example_netblock_event) = Some True"
  by code_simp

theorem netblock_match_emits_one_event_witness:
  "emitted_events (snd (snd (snd (handleEvent
      (fst (start_scan initial_world (example_sfc example_list False) example_globals))
      (snd (start_scan initial_world (example_sfc example_list False) example_globals))
      example_netblock_event))))
   = [Event ''MALICIOUS_NETBLOCK''
        (''VOIPBL Publicly Accessible PBX List [192.0.2.0/24]'' @ [CHR 0x0A]
           @ ''<SFURL>http://www.voipbl.org/update</SFURL>'')
        ''sfp_voipbl'' (Some example_netblock_event)]"
proof -
  let ?sf = "example_sfc example_list False"
  let ?w = "fst (start_scan initial_world ?sf example_globals)"
  let ?i = "snd (start_scan initial_world ?sf example_globals)"
  have sf: "inst_sf ?i = Some ?sf" and res: "inst_results ?i = Some tempStorage"
    using example_scan_instance by blast+
  have new: "tempStorage (ev_data example_netblock_event) = None"
    by (simp add: tempStorage_def)
  have opt: "(ev_eventType example_netblock_event = ''NETBLOCK_OWNER''
                \<and> opt_enabled (cls_opts ?w) ''checknetblocks'')
             \<or> (ev_eventType example_netblock_event = ''NETBLOCK_MEMBER''
                \<and> opt_enabled (cls_opts ?w) ''checksubnets'')"
    by (simp add: example_netblock_event_def opt_enabled_def start_scan_def setup_module_def
        initial_world_def default_opts_def example_globals_def)
  have cand: "''192.0.2.10'' \<in> set (candidates ?sf voipbl example_list)"
    and inside: "ip_in_net ?sf (py_strip ''192.0.2.10'') (ev_data example_netblock_event) = Some True"
    using example_candidate by blast+
  have len: "8 \<le> length ''192.0.2.10''" and hash: "\<not> startswith_hash ''192.0.2.10''"
    by (simp_all add: startswith_hash_def)
  have nostop: "\<forall>n. \<not> stop_at ?sf n"
    by (simp add: example_sfc_def)
  from netblock_match_emits_one_event [OF sf res new opt example_content cand len hash inside nostop]
  obtain acts where
    run: "snd (snd (snd (handleEvent ?w ?i example_netblock_event))) = acts"
    and em: "emitted_events acts
       = [Event (if ev_eventType example_netblock_event = ''NETBLOCK_OWNER''
                 then ''MALICIOUS_NETBLOCK'' else ''MALICIOUS_SUBNET'')
            (mc_name voipbl @ '' ['' @ ev_data example_netblock_event @ '']'' @ [CHR 0x0A]
               @ ''<SFURL>'' @ mc_url voipbl @ ''</SFURL>'')
            (inst_name ?i) (Some example_netblock_event)]"
    by auto
  have name: "inst_name ?i = ''sfp_voipbl''"
    by (simp add: start_scan_def setup_module_def new_instance_def)
  show ?thesis
    unfolding run em name
    by (simp add: example_netblock_event_def voipbl_def)
qed

text \<open>
  Claim C5 as stated fails in its scenario. The address \<^verbatim>\<open>192.0.2.1\<close> lies in the
  listed netblock \<^verbatim>\<open>192.0.2.0/24\<close>, but an \<^verbatim>\<open>IP_ADDRESS\<close> event is compared with
  the lines of the list by the pattern \<^verbatim>\<open>192.0.2.1\/\<close>, which the line does not
  match, and no event is emitted.
\<close>

theorem ip_address_in_listed_netblock_counterexample:
  "lib_ip_in_net ''192.0.2.1'' ''192.0.2.0/24'' = Some True
   \<and> fst (handleEvent
      (fst (start_scan initial_world (example_sfc example_netblock_list False) example_globals))
      (snd (start_scan initial_world (example_sfc example_netblock_list False) example_globals))
      example_ip_event) = Inr ()
   \<and> emitted_events (snd (snd (snd (handleEvent
      (fst (start_scan initial_world (example_sfc example_netblock_list False) example_globals))
      (snd (start_scan initial_world (example_sfc example_netblock_list False) example_globals))
      example_ip_event)))) = []"
  by code_simp

text \<open>
  A candidate of seven characters is passed over by the test \<^verbatim>\<open>len(ip) < 8\<close>: the
  netblock \<^verbatim>\<open>1.2.3.0/24\<close> against a list with the line \<^verbatim>\<open>1.2.3.4/32\<close> gives no
  containment test and no event.
\<close>

lemma short_candidate_is_skipped:
  "lib_ip_in_net ''1.2.3.4'' ''1.2.3.0/24'' = Some True
   \<and> snd (snd (snd (handleEvent
      (fst (start_scan initial_world (example_sfc example_short_list False) example_globals))
      (snd (start_scan initial_world (example_sfc example_short_list False) example_globals))
      example_short_netblock_event)))
   = [CacheGet ''sfmal__voipbl'', FetchUrl ''http://www.voipbl.org/update'',
      CachePut ''sfmal__voipbl'', CheckForStop False]"
  by code_simp

end
